theory Spec2Isabelle
  imports Complex_Main "HOL-Library.Word" "HOL-Library.AList"
begin

unbundle bit_operations_syntax

section \<open>JavaScript numbers and the 32-bit operators\<close>

text \<open>
  Every number that \<^verbatim>\<open>src/index.js\<close> computes with is an integer (lengths, offsets, packet
  ids, VarInt values), so a JavaScript Number is modelled as an \<^typ>\<open>int\<close>.  The bitwise
  operators of the language first convert their operands: \<^verbatim>\<open>&\<close>, \<^verbatim>\<open>|\<close>, \<^verbatim>\<open><<\<close> and \<^verbatim>\<open>>>\<close> to a
  signed 32-bit integer (ToInt32), \<^verbatim>\<open>>>>\<close> to an unsigned one (ToUint32); the shift count is
  taken modulo 32.
\<close>

definition toInt32 :: "int \<Rightarrow> int" where
  "toInt32 x = signed_take_bit 31 x"

definition toUint32 :: "int \<Rightarrow> int" where
  "toUint32 x = take_bit 32 x"

definition shiftCount :: "int \<Rightarrow> nat" where
  "shiftCount n = nat (toUint32 n mod 32)"

definition js_and :: "int \<Rightarrow> int \<Rightarrow> int" where
  "js_and a b = toInt32 a AND toInt32 b"

definition js_or :: "int \<Rightarrow> int \<Rightarrow> int" where
  "js_or a b = toInt32 a OR toInt32 b"

definition js_shl :: "int \<Rightarrow> int \<Rightarrow> int" where
  "js_shl a n = toInt32 (push_bit (shiftCount n) (toInt32 a))"

definition js_sar :: "int \<Rightarrow> int \<Rightarrow> int" where
  "js_sar a n = drop_bit (shiftCount n) (toInt32 a)"

definition js_ushr :: "int \<Rightarrow> int \<Rightarrow> int" where
  "js_ushr a n = drop_bit (shiftCount n) (toUint32 a)"

section \<open>Buffers and errors\<close>

type_synonym byte = "8 word"
type_synonym buffer = "byte list"

text \<open>\<^verbatim>\<open>Buffer.from(array)\<close> stores every element modulo 256.\<close>

definition buffer_from :: "int list \<Rightarrow> buffer" where
  "buffer_from xs = map word_of_int xs"

text \<open>
  Every \<^verbatim>\<open>throw\<close>, and every error object handed to \<^verbatim>\<open>reject\<close>, is a value of this type.
  The constructors follow the messages of the source.
\<close>

datatype error =
    IncompleteData                \<comment> \<open>\<^verbatim>\<open>'Incomplete data'\<close>\<close>
  | VarIntTooBig                  \<comment> \<open>\<^verbatim>\<open>'VarInt too big'\<close>\<close>
  | UnexpectedPacketId int        \<comment> \<open>\<^verbatim>\<open>'Unexpected packet ID: 0x..'\<close>\<close>
  | JsonParseFailed               \<comment> \<open>\<^verbatim>\<open>'Failed to parse server response: ..'\<close>\<close>
  | InvalidRconPacketTooShort     \<comment> \<open>\<^verbatim>\<open>'Invalid RCON packet (too short)'\<close>\<close>
  | IncompleteRconPacket          \<comment> \<open>\<^verbatim>\<open>'Incomplete RCON packet'\<close>\<close>
  | ConnectionTimeout             \<comment> \<open>\<^verbatim>\<open>'Connection timeout'\<close>\<close>
  | ConnectionClosedNoResponse    \<comment> \<open>\<^verbatim>\<open>'Connection closed without valid response'\<close>\<close>
  | RconConnectionTimeout         \<comment> \<open>\<^verbatim>\<open>'RCON connection timeout'\<close>\<close>
  | RconAuthenticationFailed      \<comment> \<open>\<^verbatim>\<open>'RCON authentication failed - incorrect password'\<close>\<close>
  | RconClosedBeforeAuth          \<comment> \<open>\<^verbatim>\<open>'RCON connection closed before authentication'\<close>\<close>
  | RconClosedBeforeResponse      \<comment> \<open>\<^verbatim>\<open>'RCON connection closed before receiving response'\<close>\<close>
  | SocketError string            \<comment> \<open>the error object of the socket's \<^verbatim>\<open>'error'\<close> event\<close>
  | TypeError                     \<comment> \<open>thrown by the language itself\<close>
  | RangeError                    \<comment> \<open>\<^verbatim>\<open>ERR_OUT_OF_RANGE\<close> of \<^verbatim>\<open>writeInt32LE\<close>\<close>
  | SocketBadPort                 \<comment> \<open>\<^verbatim>\<open>ERR_SOCKET_BAD_PORT\<close> of \<^verbatim>\<open>socket.connect\<close>\<close>

section \<open>VarInt codec\<close>

text \<open>
  \<^verbatim>\<open>varintEncode\<close>: the \<^verbatim>\<open>do .. while (value !== 0)\<close> loop.  After \<^verbatim>\<open>value >>>= 7\<close> the
  value is an unsigned number below \<open>2 ^ 25\<close>, so the loop ends.
\<close>

function varintEncode_loop :: "int \<Rightarrow> int list" where
  "varintEncode_loop v =
     (let temp = js_and v 0x7F;
          v' = js_ushr v 7
      in if v' \<noteq> 0 then js_or temp 0x80 # varintEncode_loop v' else [temp])"
  by pat_completeness auto

termination varintEncode_loop
proof (relation "measure (\<lambda>v. nat (toUint32 v))")
  show "wf (measure (\<lambda>v. nat (toUint32 v)))"
    by simp
next
  fix v temp v' :: int
  assume v': "v' = js_ushr v 7" and nz: "v' \<noteq> 0"
  let ?u = "take_bit 32 v"
  have range: "0 \<le> ?u" "?u < 4294967296"
    using take_bit_int_less_exp [of 32 v] by simp_all
  have "shiftCount 7 = 7"
    by (simp add: shiftCount_def toUint32_def)
  then have eq: "v' = ?u div 128"
    using v' by (simp add: js_ushr_def toUint32_def drop_bit_eq_div)
  have v'_range: "0 \<le> v'" "v' < 4294967296"
    using range by (simp_all add: eq pos_imp_zdiv_nonneg_iff)
  then have "take_bit 32 v' = v'"
    by (simp add: take_bit_int_eq_self)
  moreover have "v' < ?u"
  proof -
    from nz eq have "?u \<noteq> 0"
      by auto
    with range have "0 < ?u"
      by linarith
    then show ?thesis
      unfolding eq by (rule int_div_less_self) simp
  qed
  ultimately show "(v', v) \<in> measure (\<lambda>v. nat (toUint32 v))"
    using v'_range by (simp add: toUint32_def)
qed

text \<open>
  \<^verbatim>\<open>varintEncode\<close>.  The source remaps a negative value with \<^verbatim>\<open>(1 << 32) + value\<close>; the
  shift is the language's 32-bit shift, modelled by \<open>js_shl\<close>.
\<close>

definition varintEncode :: "int \<Rightarrow> buffer" where
  "varintEncode v =
     (let v1 = (if v < 0 then js_shl 1 32 + v else v)
      in buffer_from (varintEncode_loop v1))"

text \<open>
  \<^verbatim>\<open>readVarInt\<close>: the \<^verbatim>\<open>do .. while\<close> loop over \<^verbatim>\<open>position\<close>; the result is the pair of
  the fields \<^verbatim>\<open>value\<close> and \<^verbatim>\<open>size\<close> of the object the source returns.
\<close>

function readVarInt_loop :: "buffer \<Rightarrow> nat \<Rightarrow> int \<Rightarrow> nat \<Rightarrow> error + (int \<times> nat)" where
  "readVarInt_loop buf offset v position =
     (if offset + position \<ge> length buf then Inl IncompleteData
      else
        let currentByte = uint (buf ! (offset + position));
            v' = js_or v (js_shl (js_and currentByte 0x7F) (int position * 7));
            position' = position + 1
        in if position' > 5 then Inl VarIntTooBig
           else if js_and currentByte 0x80 \<noteq> 0 then readVarInt_loop buf offset v' position'
           else Inr (v', position'))"
  by pat_completeness auto
termination
  by (relation "measure (\<lambda>(buf, offset, v, position). 6 - position)") auto

definition readVarInt :: "buffer \<Rightarrow> nat \<Rightarrow> error + (int \<times> nat)" where
  "readVarInt buf offset = readVarInt_loop buf offset 0 0"

section \<open>Strings and their UTF-8 form\<close>

text \<open>
  A JavaScript string is a sequence of UTF-16 code units; \<^verbatim>\<open>s.length\<close> counts them.
  \<open>js_str\<close> writes an ASCII literal of the source as such a string.
\<close>

type_synonym jschar = "16 word"
type_synonym jsstring = "jschar list"

definition js_str :: "string \<Rightarrow> jsstring" where
  "js_str s = map (\<lambda>c. word_of_nat (of_char c)) s"

text \<open>
  \<^verbatim>\<open>Buffer.from(s, 'utf8')\<close>: one to three bytes for a code unit, four for a surrogate pair,
  and the three bytes of U+FFFD for a surrogate without its partner.
\<close>

definition replacement_bytes :: buffer where
  "replacement_bytes = [0xEF, 0xBF, 0xBD]"

definition high_surrogate :: "jschar \<Rightarrow> bool" where
  "high_surrogate c \<longleftrightarrow> 0xD800 \<le> unat c \<and> unat c < 0xDC00"

definition low_surrogate :: "jschar \<Rightarrow> bool" where
  "low_surrogate c \<longleftrightarrow> 0xDC00 \<le> unat c \<and> unat c < 0xE000"

definition pair_bytes :: "jschar \<Rightarrow> jschar \<Rightarrow> buffer" where
  "pair_bytes c d =
     (let cp = 0x10000 + (unat c - 0xD800) * 0x400 + (unat d - 0xDC00)
      in [word_of_nat (0xF0 + cp div 262144), word_of_nat (0x80 + (cp div 4096) mod 64),
          word_of_nat (0x80 + (cp div 64) mod 64), word_of_nat (0x80 + cp mod 64)])"

definition unit_bytes :: "jschar \<Rightarrow> buffer" where
  "unit_bytes c =
     (let u = unat c in
      if u < 0x80 then [word_of_nat u]
      else if u < 0x800 then [word_of_nat (0xC0 + u div 64), word_of_nat (0x80 + u mod 64)]
      else if high_surrogate c \<or> low_surrogate c then replacement_bytes
      else [word_of_nat (0xE0 + u div 4096), word_of_nat (0x80 + (u div 64) mod 64),
            word_of_nat (0x80 + u mod 64)])"

fun utf8_encode :: "jsstring \<Rightarrow> buffer" where
  "utf8_encode [] = []"
| "utf8_encode [c] = unit_bytes c"
| "utf8_encode (c # d # ds) =
     (if high_surrogate c \<and> low_surrogate d then pair_bytes c d @ utf8_encode ds
      else unit_bytes c @ utf8_encode (d # ds))"

text \<open>
  \<^verbatim>\<open>buf.toString('utf8')\<close> decodes as the WHATWG UTF-8 decoder does: a byte that cannot start
  or continue a sequence ends the sequence read so far, which becomes U+FFFD, and is read
  again as the start of the next one.  \<open>utf8_code_points\<close> works on the byte values.
\<close>

definition continuation :: "nat \<Rightarrow> bool" where
  "continuation b \<longleftrightarrow> 0x80 \<le> b \<and> b \<le> 0xBF"

fun utf8_code_points :: "nat list \<Rightarrow> nat list" where
  "utf8_code_points [] = []"
| "utf8_code_points (b # bs) =
     (if b < 0x80 then b # utf8_code_points bs
      else if 0xC2 \<le> b \<and> b \<le> 0xDF then
        (case bs of
           [] \<Rightarrow> [0xFFFD]
         | c # cs \<Rightarrow>
             if continuation c then ((b - 0xC0) * 64 + (c - 0x80)) # utf8_code_points cs
             else 0xFFFD # utf8_code_points bs)
      else if 0xE0 \<le> b \<and> b \<le> 0xEF then
        (case bs of
           [] \<Rightarrow> [0xFFFD]
         | c # cs \<Rightarrow>
             if (if b = 0xE0 then 0xA0 else 0x80) \<le> c \<and> c \<le> (if b = 0xED then 0x9F else 0xBF) then
               (case cs of
                  [] \<Rightarrow> [0xFFFD]
                | d # ds \<Rightarrow>
                    if continuation d then
                      (((b - 0xE0) * 64 + (c - 0x80)) * 64 + (d - 0x80)) # utf8_code_points ds
                    else 0xFFFD # utf8_code_points cs)
             else 0xFFFD # utf8_code_points bs)
      else if 0xF0 \<le> b \<and> b \<le> 0xF4 then
        (case bs of
           [] \<Rightarrow> [0xFFFD]
         | c # cs \<Rightarrow>
             if (if b = 0xF0 then 0x90 else 0x80) \<le> c \<and> c \<le> (if b = 0xF4 then 0x8F else 0xBF) then
               (case cs of
                  [] \<Rightarrow> [0xFFFD]
                | d # ds \<Rightarrow>
                    if continuation d then
                      (case ds of
                         [] \<Rightarrow> [0xFFFD]
                       | e # es \<Rightarrow>
                           if continuation e then
                             ((((b - 0xF0) * 64 + (c - 0x80)) * 64 + (d - 0x80)) * 64 + (e - 0x80)) #
                               utf8_code_points es
                           else 0xFFFD # utf8_code_points ds)
                    else 0xFFFD # utf8_code_points cs)
             else 0xFFFD # utf8_code_points bs)
      else 0xFFFD # utf8_code_points bs)"

definition utf16_units :: "nat \<Rightarrow> jsstring" where
  "utf16_units cp =
     (if cp < 0x10000 then [word_of_nat cp]
      else [word_of_nat (0xD800 + (cp - 0x10000) div 0x400),
            word_of_nat (0xDC00 + (cp - 0x10000) mod 0x400)])"

definition utf8_decode :: "buffer \<Rightarrow> jsstring" where
  "utf8_decode bs = concat (map utf16_units (utf8_code_points (map unat bs)))"

text \<open>
  \<^verbatim>\<open>buf.toString('utf8', start, end)\<close>, with the clamping of Node's \<^verbatim>\<open>Buffer.prototype.toString\<close>.
\<close>

definition buffer_toString :: "buffer \<Rightarrow> int \<Rightarrow> int \<Rightarrow> jsstring" where
  "buffer_toString buf start end' =
     (let len = int (length buf) in
      if 0 < start \<and> len \<le> start then []
      else
        let start1 = (if start \<le> 0 then 0 else start);
            end1 = (if len < end' then len else end')
        in if end1 \<le> start1 then []
           else utf8_decode (take (nat (end1 - start1)) (drop (nat start1) buf)))"

section \<open>RCON packet codec\<close>

text \<open>
  The \<^verbatim>\<open>Buffer\<close> methods the codec calls.  \<^verbatim>\<open>writeInt32LE\<close> throws \<^verbatim>\<open>ERR_OUT_OF_RANGE\<close>
  for a value outside the signed 32-bit range and for an offset that leaves no room for
  four bytes, and \<^verbatim>\<open>readInt32LE\<close> for such an offset.
\<close>

definition buffer_alloc :: "nat \<Rightarrow> buffer" where
  "buffer_alloc n = replicate n 0"

definition int32_bytes :: "int \<Rightarrow> buffer" where
  "int32_bytes v =
     [word_of_int v, word_of_int (drop_bit 8 v), word_of_int (drop_bit 16 v),
      word_of_int (drop_bit 24 v)]"

definition writeInt32LE :: "buffer \<Rightarrow> int \<Rightarrow> nat \<Rightarrow> error + buffer" where
  "writeInt32LE buf v offset =
     (if v < - 2147483648 \<or> 2147483647 < v then Inl RangeError
      else if length buf < offset + 4 then Inl RangeError
      else Inr (take offset buf @ int32_bytes v @ drop (offset + 4) buf))"

definition readInt32LE :: "buffer \<Rightarrow> nat \<Rightarrow> error + int" where
  "readInt32LE buf offset =
     (if length buf < offset + 4 then Inl RangeError
      else Inr (uint (buf ! offset) + uint (buf ! (offset + 1)) * 2 ^ 8
                + uint (buf ! (offset + 2)) * 2 ^ 16 + js_shl (uint (buf ! (offset + 3))) 24))"

text \<open>\<^verbatim>\<open>source.copy(target, targetStart)\<close> copies as many bytes as fit into the target.\<close>

definition buffer_copy :: "buffer \<Rightarrow> buffer \<Rightarrow> nat \<Rightarrow> buffer" where
  "buffer_copy source target targetStart =
     (let n = min (length source) (length target - targetStart)
      in take targetStart target @ take n source @ drop (targetStart + n) target)"

text \<open>Sequencing of calls that may throw: the first error ends the computation.\<close>

definition and_then :: "error + 'a \<Rightarrow> ('a \<Rightarrow> error + 'b) \<Rightarrow> error + 'b" where
  "and_then r f = (case r of Inl e \<Rightarrow> Inl e | Inr x \<Rightarrow> f x)"

text \<open>\<^verbatim>\<open>createRconPacket(type, id, payload)\<close>.\<close>

definition createRconPacket :: "int \<Rightarrow> int \<Rightarrow> jsstring \<Rightarrow> error + buffer" where
  "createRconPacket type' id' payload' =
     (let payloadBuffer = utf8_encode (payload' @ [0]);
          length' = 4 + 4 + int (length payloadBuffer);
          packet = buffer_alloc (nat (4 + length'))
      in and_then (writeInt32LE packet length' 0) (\<lambda>packet1.
         and_then (writeInt32LE packet1 id' 4) (\<lambda>packet2.
         and_then (writeInt32LE packet2 type' 8) (\<lambda>packet3.
         Inr (buffer_copy payloadBuffer packet3 12)))))"

text \<open>The object \<^verbatim>\<open>{ length, id, type, payload }\<close> that \<^verbatim>\<open>parseRconPacket\<close> returns.\<close>

record rcon_packet =
  packet_length :: int
  packet_id :: int
  packet_type :: int
  payload :: jsstring

definition parseRconPacket :: "buffer \<Rightarrow> error + rcon_packet" where
  "parseRconPacket data' =
     (if length data' < 12 then Inl InvalidRconPacketTooShort
      else
        and_then (readInt32LE data' 0) (\<lambda>length'.
        and_then (readInt32LE data' 4) (\<lambda>id'.
        and_then (readInt32LE data' 8) (\<lambda>type'.
          if int (length data') < 4 + length' then Inl IncompleteRconPacket
          else
            let payloadEnd = 4 + length' - 2;
                payload' = buffer_toString data' 12 payloadEnd
            in Inr \<lparr>packet_length = length', packet_id = id', packet_type = type',
                     payload = payload'\<rparr>))))"

section \<open>Status packets\<close>

text \<open>\<^verbatim>\<open>createHandshakePacket(host, port)\<close> and \<^verbatim>\<open>createStatusRequestPacket()\<close>.\<close>

definition createHandshakePacket :: "jsstring \<Rightarrow> int \<Rightarrow> buffer" where
  "createHandshakePacket host port =
     (let protocolVersion = - 1;
          protocolVersionBuffer = varintEncode protocolVersion;
          hostLengthBuffer = varintEncode (int (length host));
          hostBuffer = utf8_encode host;
          portBuffer = buffer_from [js_and (js_sar port 8) 0xFF, js_and port 0xFF];
          nextStateBuffer = varintEncode 1;
          packetId = buffer_from [0x00];
          packetBody = packetId @ protocolVersionBuffer @ hostLengthBuffer @ hostBuffer
                         @ portBuffer @ nextStateBuffer;
          packetLengthBuffer = varintEncode (int (length packetBody))
      in packetLengthBuffer @ packetBody)"

definition createStatusRequestPacket :: buffer where
  "createStatusRequestPacket =
     (let packetId = buffer_from [0x00];
          packetLengthBuffer = varintEncode (int (length packetId))
      in packetLengthBuffer @ packetId)"

section \<open>Values of the language\<close>

text \<open>
  What \<^verbatim>\<open>JSON.parse\<close> returns, and \<^verbatim>\<open>undefined\<close>.  An object is the list of its own
  properties; an array carries its elements and the named properties assigned to it.  A
  number of a JSON text is a finite decimal, kept as a rational.
\<close>

datatype jsval =
    JUndefined
  | JNull
  | JBool bool
  | JNum rat
  | JStr jsstring
  | JArr "jsval list" "(jsstring \<times> jsval) list"
  | JObj "(jsstring \<times> jsval) list"

text \<open>
  The parts of the runtime that the source calls and that are not modelled further:
  \<^verbatim>\<open>JSON.parse\<close> (\<open>None\<close> is its \<^verbatim>\<open>SyntaxError\<close>), and the conversions of the language that
  the source reaches only with values of an unexpected type: the comparison \<^verbatim>\<open>v > 0\<close> for a
  string, an array or an object \<open>v\<close>, and the string that \<^verbatim>\<open>join\<close> makes of an element that
  is neither a string nor \<^verbatim>\<open>null\<close> nor \<^verbatim>\<open>undefined\<close>.  A conversion either returns or throws a
  \<^verbatim>\<open>TypeError\<close>, which is the result \<open>None\<close>.
\<close>

record js_runtime =
  json_parse :: "jsstring \<Rightarrow> jsval option"
  coerced_gt_zero :: "jsval \<Rightarrow> bool option"
  coerced_string :: "jsval \<Rightarrow> jsstring option"

text \<open>
  \<^verbatim>\<open>v.k\<close> for the names the source reads (\<^verbatim>\<open>players\<close>, \<^verbatim>\<open>online\<close>, \<^verbatim>\<open>sample\<close>, \<^verbatim>\<open>name\<close>), none
  of which a built-in prototype defines: the own property, or \<^verbatim>\<open>undefined\<close>; a \<^verbatim>\<open>TypeError\<close> on
  \<^verbatim>\<open>null\<close> and \<^verbatim>\<open>undefined\<close>.
\<close>

definition own_property :: "(jsstring \<times> jsval) list \<Rightarrow> jsstring \<Rightarrow> jsval" where
  "own_property kvs k = (case map_of kvs k of None \<Rightarrow> JUndefined | Some v \<Rightarrow> v)"

fun js_get :: "jsval \<Rightarrow> jsstring \<Rightarrow> error + jsval" where
  "js_get JUndefined k = Inl TypeError"
| "js_get JNull k = Inl TypeError"
| "js_get (JObj kvs) k = Inr (own_property kvs k)"
| "js_get (JArr xs kvs) k = Inr (own_property kvs k)"
| "js_get (JBool b) k = Inr JUndefined"
| "js_get (JNum n) k = Inr JUndefined"
| "js_get (JStr s) k = Inr JUndefined"

text \<open>\<^verbatim>\<open>v?.k\<close>.\<close>

definition js_get_optional :: "jsval \<Rightarrow> jsstring \<Rightarrow> error + jsval" where
  "js_get_optional v k = (if v = JUndefined \<or> v = JNull then Inr JUndefined else js_get v k)"

text \<open>
  \<^verbatim>\<open>v.k = x\<close> in module code, which is strict: a \<^verbatim>\<open>TypeError\<close> unless \<open>v\<close> is an object or an
  array.  The value returned is \<open>v\<close> after the assignment.
\<close>

fun js_set :: "jsval \<Rightarrow> jsstring \<Rightarrow> jsval \<Rightarrow> error + jsval" where
  "js_set (JObj kvs) k x = Inr (JObj (AList.update k x kvs))"
| "js_set (JArr xs kvs) k x = Inr (JArr xs (AList.update k x kvs))"
| "js_set v k x = Inl TypeError"

fun js_truthy :: "jsval \<Rightarrow> bool" where
  "js_truthy JUndefined = False"
| "js_truthy JNull = False"
| "js_truthy (JBool b) = b"
| "js_truthy (JNum n) = (n \<noteq> 0)"
| "js_truthy (JStr s) = (s \<noteq> [])"
| "js_truthy (JArr xs kvs) = True"
| "js_truthy (JObj kvs) = True"

text \<open>\<^verbatim>\<open>v > 0\<close>.\<close>

fun js_gt_zero :: "js_runtime \<Rightarrow> jsval \<Rightarrow> error + bool" where
  "js_gt_zero rt (JNum n) = Inr (0 < n)"
| "js_gt_zero rt (JBool b) = Inr b"
| "js_gt_zero rt JNull = Inr False"
| "js_gt_zero rt JUndefined = Inr False"
| "js_gt_zero rt v = (case coerced_gt_zero rt v of None \<Rightarrow> Inl TypeError | Some b \<Rightarrow> Inr b)"

text \<open>\<^verbatim>\<open>sample.map(player => player.name)\<close>: only an array has a \<^verbatim>\<open>map\<close> that can be called.\<close>

fun map_names :: "jsval list \<Rightarrow> error + jsval list" where
  "map_names [] = Inr []"
| "map_names (player # rest) =
     and_then (js_get player (js_str ''name'')) (\<lambda>name.
     and_then (map_names rest) (\<lambda>names. Inr (name # names)))"

fun sample_map_names :: "jsval \<Rightarrow> error + jsval list" where
  "sample_map_names (JArr xs kvs) = map_names xs"
| "sample_map_names v = Inl TypeError"

text \<open>\<^verbatim>\<open>names.join(", ")\<close>.\<close>

fun join_element :: "js_runtime \<Rightarrow> jsval \<Rightarrow> error + jsstring" where
  "join_element rt JUndefined = Inr []"
| "join_element rt JNull = Inr []"
| "join_element rt (JStr s) = Inr s"
| "join_element rt v = (case coerced_string rt v of None \<Rightarrow> Inl TypeError | Some s \<Rightarrow> Inr s)"

fun js_join :: "js_runtime \<Rightarrow> jsval list \<Rightarrow> jsstring \<Rightarrow> error + jsstring" where
  "js_join rt [] sep = Inr []"
| "js_join rt [x] sep = join_element rt x"
| "js_join rt (x # y # ys) sep =
     and_then (join_element rt x) (\<lambda>s.
     and_then (js_join rt (y # ys) sep) (\<lambda>r. Inr (s @ sep @ r)))"

section \<open>Status response\<close>

text \<open>\<^verbatim>\<open>parseStatusResponse(data)\<close>.\<close>

definition parseStatusResponse :: "js_runtime \<Rightarrow> buffer \<Rightarrow> error + jsval" where
  "parseStatusResponse rt data' =
     and_then (readVarInt data' 0) (\<lambda>(packetLength, size1).
       let offset1 = size1 in
       if int (length data') < int offset1 + packetLength then Inl IncompleteData
       else
         and_then (readVarInt data' offset1) (\<lambda>(packetId, size2).
           let offset2 = offset1 + size2 in
           if packetId \<noteq> 0x00 then Inl (UnexpectedPacketId packetId)
           else
             and_then (readVarInt data' offset2) (\<lambda>(jsonLength, size3).
               let offset3 = offset2 + size3 in
               if int (length data') < int offset3 + jsonLength then Inl IncompleteData
               else
                 let jsonStr = buffer_toString data' (int offset3) (int offset3 + jsonLength)
                 in case json_parse rt jsonStr of
                      None \<Rightarrow> Inl JsonParseFailed
                    | Some response \<Rightarrow> Inr response)))"

text \<open>
  The statements between \<^verbatim>\<open>socket.end()\<close> and \<^verbatim>\<open>resolve(result)\<close> in the \<^verbatim>\<open>'data'\<close> handler of
  \<^verbatim>\<open>getMinecraftServerStatus\<close>: \<^verbatim>\<open>result.online = true\<close>, then the \<^verbatim>\<open>if\<close> that sets
  \<^verbatim>\<open>result.players.nicknames\<close>.  The value returned is \<^verbatim>\<open>result\<close> after them.
\<close>

definition augment_status :: "js_runtime \<Rightarrow> jsval \<Rightarrow> error + jsval" where
  "augment_status rt result =
     and_then (js_set result (js_str ''online'') (JBool True)) (\<lambda>result1.
     and_then (js_get_optional result1 (js_str ''players'')) (\<lambda>players.
     and_then (js_get_optional players (js_str ''online'')) (\<lambda>players_online.
       if \<not> js_truthy players_online then Inr result1
       else
         and_then (js_gt_zero rt players_online) (\<lambda>positive.
           if \<not> positive then Inr result1
           else
             and_then (js_get players (js_str ''sample'')) (\<lambda>sample.
             and_then (sample_map_names sample) (\<lambda>names.
             and_then (js_join rt names (js_str '', '')) (\<lambda>nicknames.
             and_then (js_set players (js_str ''nicknames'') (JStr nicknames)) (\<lambda>players1.
               js_set result1 (js_str ''players'') players1))))))))"

section \<open>Sessions\<close>

text \<open>
  A session is the closure of one call of \<^verbatim>\<open>getMinecraftServerStatus\<close> or \<^verbatim>\<open>sendRconCommand\<close>:
  its variables, the calls it has made on its socket, and its promise.  A promise keeps
  the first outcome it is given; \<open>settle_calls\<close> records every rejection and every call of
  \<^verbatim>\<open>resolve\<close> and \<^verbatim>\<open>reject\<close>, in order.

  The function given to \<^verbatim>\<open>new Promise\<close> registers the \<^verbatim>\<open>'timeout'\<close> and \<^verbatim>\<open>'error'\<close> handlers, calls
  \<^verbatim>\<open>socket.connect(port, host, ..)\<close>, and then registers the \<^verbatim>\<open>'data'\<close>, \<^verbatim>\<open>'end'\<close> and \<^verbatim>\<open>'close'\<close>
  handlers.  \<^verbatim>\<open>socket.connect\<close> throws \<^verbatim>\<open>ERR_SOCKET_BAD_PORT\<close> for a port outside 0..65535: the
  promise is then rejected with that error, and the handlers that follow the call, like its
  own callback, are never registered.  \<open>handlers_registered\<close> tells whether they are.
\<close>

datatype 'r outcome = Resolved 'r | Rejected error

datatype socket_call =
    SetTimeout int
  | Connect int jsstring
  | Write buffer
  | End
  | Destroy

record 'r session =
  socket_calls :: "socket_call list"
  settled :: "'r outcome option"
  settle_calls :: "'r outcome list"
  handlers_registered :: bool

definition valid_port :: "int \<Rightarrow> bool" where
  "valid_port port \<longleftrightarrow> 0 \<le> port \<and> port \<le> 65535"

definition socket_do :: "socket_call \<Rightarrow> ('r, 'm) session_scheme \<Rightarrow> ('r, 'm) session_scheme" where
  "socket_do c s = s\<lparr>socket_calls := socket_calls s @ [c]\<rparr>"

definition settle :: "'r outcome \<Rightarrow> ('r, 'm) session_scheme \<Rightarrow> ('r, 'm) session_scheme" where
  "settle out s =
     s\<lparr>settle_calls := settle_calls s @ [out],
       settled := (case settled s of None \<Rightarrow> Some out | Some first \<Rightarrow> Some first)\<rparr>"

text \<open>The events a socket delivers to the handlers of a session.\<close>

datatype socket_event =
    OnConnect
  | OnData buffer
  | OnEnd
  | OnClose
  | OnTimeout
  | OnError error

subsection \<open>Status session\<close>

record status_session = "jsval session" +
  data :: buffer
  hasReceivedResponse :: bool

definition status_start :: "jsstring \<Rightarrow> int \<Rightarrow> status_session" where
  "status_start host port =
     (if valid_port port then
        \<lparr>socket_calls = [SetTimeout 10000, Connect port host], settled = None, settle_calls = [],
         handlers_registered = True, data = buffer_alloc 0, hasReceivedResponse = False\<rparr>
      else
        settle (Rejected SocketBadPort)
          \<lparr>socket_calls = [SetTimeout 10000], settled = None, settle_calls = [],
           handlers_registered = False, data = buffer_alloc 0, hasReceivedResponse = False\<rparr>)"

text \<open>The \<^verbatim>\<open>catch\<close> block of the \<^verbatim>\<open>'data'\<close> handler.\<close>

definition status_catch :: "error \<Rightarrow> status_session \<Rightarrow> status_session" where
  "status_catch e s =
     (if e = IncompleteData then s
      else settle (Rejected e) (socket_do End s))"

definition status_on_data :: "js_runtime \<Rightarrow> buffer \<Rightarrow> status_session \<Rightarrow> status_session" where
  "status_on_data rt chunk s =
     (let s1 = s\<lparr>data := data s @ chunk\<rparr> in
      case parseStatusResponse rt (data s1) of
        Inl e \<Rightarrow> status_catch e s1
      | Inr result \<Rightarrow>
          let s2 = socket_do End (s1\<lparr>hasReceivedResponse := True\<rparr>) in
          case augment_status rt result of
            Inl e \<Rightarrow> status_catch e s2
          | Inr result1 \<Rightarrow> settle (Resolved result1) s2)"

text \<open>
  The handlers.  The \<^verbatim>\<open>try\<close> block of the \<^verbatim>\<open>connect\<close> callback cannot throw: both packet
  builders return a buffer for every host and port.  An event whose handler is not
  registered changes nothing.
\<close>

fun status_handle :: "js_runtime \<Rightarrow> jsstring \<Rightarrow> int \<Rightarrow> socket_event \<Rightarrow> status_session \<Rightarrow> status_session" where
  "status_handle rt host port OnTimeout s = settle (Rejected ConnectionTimeout) (socket_do Destroy s)"
| "status_handle rt host port (OnError err) s = settle (Rejected err) s"
| "status_handle rt host port OnConnect s =
     (if \<not> handlers_registered s then s
      else socket_do (Write createStatusRequestPacket)
             (socket_do (Write (createHandshakePacket host port)) s))"
| "status_handle rt host port (OnData chunk) s =
     (if \<not> handlers_registered s then s else status_on_data rt chunk s)"
| "status_handle rt host port OnEnd s =
     (if \<not> handlers_registered s then s
      else if \<not> hasReceivedResponse s then settle (Rejected ConnectionClosedNoResponse) s else s)"
| "status_handle rt host port OnClose s =
     (if \<not> handlers_registered s then s
      else if \<not> hasReceivedResponse s then settle (Rejected ConnectionClosedNoResponse) s else s)"

fun status_run :: "js_runtime \<Rightarrow> jsstring \<Rightarrow> int \<Rightarrow> socket_event list \<Rightarrow> status_session \<Rightarrow> status_session" where
  "status_run rt host port [] s = s"
| "status_run rt host port (ev # evs) s = status_run rt host port evs (status_handle rt host port ev s)"

subsection \<open>RCON session\<close>

record rcon_session = "jsstring session" +
  authenticated :: bool
  responseData :: jsstring

definition rcon_start :: "jsstring \<Rightarrow> int \<Rightarrow> rcon_session" where
  "rcon_start host port =
     (if valid_port port then
        \<lparr>socket_calls = [SetTimeout 5000, Connect port host], settled = None, settle_calls = [],
         handlers_registered = True, authenticated = False, responseData = []\<rparr>
      else
        settle (Rejected SocketBadPort)
          \<lparr>socket_calls = [SetTimeout 5000], settled = None, settle_calls = [],
           handlers_registered = False, authenticated = False, responseData = []\<rparr>)"

text \<open>The \<^verbatim>\<open>catch\<close> block of the \<^verbatim>\<open>'data'\<close> handler.\<close>

definition rcon_catch :: "error \<Rightarrow> rcon_session \<Rightarrow> rcon_session" where
  "rcon_catch err s = settle (Rejected err) (socket_do Destroy s)"

definition rcon_on_data :: "jsstring \<Rightarrow> buffer \<Rightarrow> rcon_session \<Rightarrow> rcon_session" where
  "rcon_on_data command chunk s =
     (case parseRconPacket chunk of
        Inl err \<Rightarrow> rcon_catch err s
      | Inr packetInfo \<Rightarrow>
          if \<not> authenticated s then
            if packet_id packetInfo = 0x123 then
              if packet_id packetInfo \<noteq> - 1 then
                (let s1 = s\<lparr>authenticated := True\<rparr> in
                 case createRconPacket 0x02 0x456 command of
                   Inl err \<Rightarrow> rcon_catch err s1
                 | Inr commandPacket \<Rightarrow> socket_do (Write commandPacket) s1)
              else settle (Rejected RconAuthenticationFailed) (socket_do Destroy s)
            else s
          else
            if packet_id packetInfo = 0x456 then
              (let s1 = s\<lparr>responseData := responseData s @ payload packetInfo\<rparr>
               in settle (Resolved (responseData s1)) (socket_do End s1))
            else s)"

text \<open>
  The handlers.  The \<^verbatim>\<open>connect\<close> callback has no \<^verbatim>\<open>try\<close>: an exception of \<^verbatim>\<open>createRconPacket\<close>
  leaves it without a write and without a call of \<^verbatim>\<open>reject\<close>.  An event whose handler is not
  registered changes nothing.
\<close>

fun rcon_handle :: "jsstring \<Rightarrow> jsstring \<Rightarrow> socket_event \<Rightarrow> rcon_session \<Rightarrow> rcon_session" where
  "rcon_handle password command OnTimeout s =
     settle (Rejected RconConnectionTimeout) (socket_do Destroy s)"
| "rcon_handle password command (OnError err) s = settle (Rejected err) s"
| "rcon_handle password command OnConnect s =
     (if \<not> handlers_registered s then s
      else case createRconPacket 0x03 0x123 password of
             Inl err \<Rightarrow> s
           | Inr authPacket \<Rightarrow> socket_do (Write authPacket) s)"
| "rcon_handle password command (OnData chunk) s =
     (if \<not> handlers_registered s then s else rcon_on_data command chunk s)"
| "rcon_handle password command OnEnd s =
     (if \<not> handlers_registered s then s
      else if \<not> authenticated s then settle (Rejected RconClosedBeforeAuth) s
      else if responseData s = [] then settle (Rejected RconClosedBeforeResponse) s
      else s)"
| "rcon_handle password command OnClose s = s"

fun rcon_run :: "jsstring \<Rightarrow> jsstring \<Rightarrow> socket_event list \<Rightarrow> rcon_session \<Rightarrow> rcon_session" where
  "rcon_run password command [] s = s"
| "rcon_run password command (ev # evs) s = rcon_run password command evs (rcon_handle password command ev s)"

section \<open>Notions used to state the claims\<close>

text \<open>The expression \<^verbatim>\<open>result.players.nicknames\<close> on a resolved status.\<close>

definition players_nicknames :: "jsval \<Rightarrow> error + jsval" where
  "players_nicknames result =
     and_then (js_get result (js_str ''players'')) (\<lambda>players. js_get players (js_str ''nicknames''))"

text \<open>
  The comma-joined list of names, in the words of the specification: the first name, and
  every further name after a comma and a space.
\<close>

definition comma_joined :: "jsstring list \<Rightarrow> jsstring" where
  "comma_joined names =
     (case names of
        [] \<Rightarrow> []
      | first # others \<Rightarrow> first @ concat (map (\<lambda>name. js_str '', '' @ name) others))"

text \<open>The bytes of the \<^verbatim>\<open>'data'\<close> events among the given events, in the order of their arrival.\<close>

fun received_bytes :: "socket_event list \<Rightarrow> buffer" where
  "received_bytes [] = []"
| "received_bytes (OnData chunk # evs) = chunk @ received_bytes evs"
| "received_bytes (ev # evs) = received_bytes evs"

text \<open>The first of the outcomes passed to \<^verbatim>\<open>resolve\<close> and \<^verbatim>\<open>reject\<close>, if there is one.\<close>

definition first_outcome :: "'r outcome list \<Rightarrow> 'r outcome option" where
  "first_outcome calls = (case calls of [] \<Rightarrow> None | first # later \<Rightarrow> Some first)"

text \<open>
  A runtime for the examples: its \<^verbatim>\<open>JSON.parse\<close> returns the given result for every text, and
  the conversions it is asked for throw.
\<close>

definition example_runtime :: "jsval option \<Rightarrow> js_runtime" where
  "example_runtime parsed =
     \<lparr>json_parse = (\<lambda>text. parsed), coerced_gt_zero = (\<lambda>v. None),
      coerced_string = (\<lambda>v. None)\<rparr>"

text \<open>
  A string is well formed when every surrogate in it is part of a pair, a high surrogate
  followed by a low one.
\<close>

fun well_formed :: "jsstring \<Rightarrow> bool" where
  "well_formed [] \<longleftrightarrow> True"
| "well_formed [c] \<longleftrightarrow> \<not> high_surrogate c \<and> \<not> low_surrogate c"
| "well_formed (c # d # ds) \<longleftrightarrow>
     (if high_surrogate c then low_surrogate d \<and> well_formed ds
      else \<not> low_surrogate c \<and> well_formed (d # ds))"

section \<open>Properties of the VarInt codec\<close>

text \<open>The equations of the two loops are unfolded by hand, one iteration at a time.\<close>

declare varintEncode_loop.simps [simp del] readVarInt_loop.simps [simp del]

lemma shiftCount_7: "shiftCount 7 = 7"
  by (simp add: shiftCount_def toUint32_def)

lemma low7_mask: "(127::int) = mask 7"
  by (simp add: mask_eq_exp_minus_1)

lemma continuation_bit: "(128::int) = push_bit 7 1"
  by simp

lemma toInt32_127: "toInt32 127 = 127"
  by (simp add: toInt32_def)

lemma toInt32_128: "toInt32 128 = 128"
  by (simp add: toInt32_def)

lemma js_and_127: "js_and c 0x7F = take_bit 7 c"
  unfolding js_and_def toInt32_127 unfolding toInt32_def low7_mask
  by (simp add: take_bit_eq_mask [symmetric] take_bit_signed_take_bit)

lemma js_or_128: "js_or (take_bit 7 c) 0x80 = take_bit 7 c OR push_bit 7 1"
proof -
  have "signed_take_bit 31 (take_bit 7 c) = take_bit 7 c"
    by (auto simp: bit_eq_iff bit_simps)
  then show ?thesis
    unfolding js_or_def toInt32_128 by (simp add: toInt32_def)
qed

lemma uint_cont_byte: "uint (word_of_int (take_bit 7 c OR push_bit 7 1) :: byte) = take_bit 7 c OR push_bit 7 1"
  by (auto simp: uint_word_of_int_eq bit_eq_iff bit_simps)

lemma uint_last_byte: "uint (word_of_int (take_bit 7 c) :: byte) = take_bit 7 c"
  by (auto simp: uint_word_of_int_eq bit_eq_iff bit_simps)

lemma low7_cont: "take_bit 7 (take_bit 7 c OR push_bit 7 1) = take_bit 7 (c::int)"
  by (auto simp: bit_eq_iff bit_simps)

lemma js_and_128_cont: "js_and (take_bit 7 c OR push_bit 7 1) 0x80 \<noteq> 0"
proof -
  have "bit (js_and (take_bit 7 c OR push_bit 7 1) 0x80) 7"
    unfolding js_and_def toInt32_128 unfolding toInt32_def continuation_bit
    by (simp add: bit_simps)
  then show ?thesis by auto
qed

lemma bit_128_iff: "bit (128::int) n \<longleftrightarrow> n = 7"
proof -
  have "bit (2 ^ 7 :: int) n \<longleftrightarrow> n = 7"
    by (simp only: bit_exp_iff) auto
  then show ?thesis by simp
qed

lemma js_and_128_last: "js_and (take_bit 7 c) 0x80 = 0"
  unfolding js_and_def toInt32_128 unfolding toInt32_def
  by (rule bit_eqI) (auto simp: bit_simps bit_128_iff)

lemma shiftCount_small: "k \<le> 4 \<Longrightarrow> shiftCount (int k * 7) = 7 * k"
proof -
  assume "k \<le> 4"
  then have "int k * 7 < 32" "0 \<le> int k * 7" by simp_all
  then show ?thesis
    by (simp add: shiftCount_def toUint32_def take_bit_int_eq_self nat_mult_distrib mult.commute)
qed

lemma js_or_shl: "k \<le> 4 \<Longrightarrow> js_or (toInt32 A) (js_shl m (int k * 7)) = toInt32 (A OR push_bit (7 * k) m)"
  unfolding js_or_def js_shl_def toInt32_def
  by (auto simp: shiftCount_small bit_eq_iff bit_simps)

lemma low7_or_rest: "take_bit 7 n OR push_bit 7 (drop_bit 7 n) = (n::int)"
proof (rule bit_eqI)
  fix i
  show "bit (take_bit 7 n OR push_bit 7 (drop_bit 7 n)) i \<longleftrightarrow> bit n i"
    by (cases "i < 7") (auto simp: bit_simps)
qed

lemma split_low7: "push_bit s (take_bit 7 n) OR push_bit (s + 7) (drop_bit 7 n) = push_bit s (n::int)"
proof -
  have "push_bit (s + 7) (drop_bit 7 n) = push_bit s (push_bit 7 (drop_bit 7 n))"
    by (simp add: push_bit_add add.commute)
  then have "push_bit s (take_bit 7 n) OR push_bit (s + 7) (drop_bit 7 n)
      = push_bit s (take_bit 7 n OR push_bit 7 (drop_bit 7 n))"
    by (simp only: push_bit_or)
  then show ?thesis
    by (simp only: low7_or_rest)
qed

lemma varintEncode_loop_unfold:
  "varintEncode_loop v =
     (if drop_bit 7 (take_bit 32 v) \<noteq> 0
      then (take_bit 7 v OR push_bit 7 1) # varintEncode_loop (drop_bit 7 (take_bit 32 v))
      else [take_bit 7 v])"
  by (subst varintEncode_loop.simps)
    (simp add: Let_def js_and_127 js_or_128 js_ushr_def shiftCount_7 toUint32_def del: push_bit_of_1)

lemma readVarInt_loop_step:
  assumes "k < length buf" "k \<le> 4"
  shows "readVarInt_loop buf 0 (toInt32 A) k =
     (let cb = uint (buf ! k); A' = A OR push_bit (7 * k) (take_bit 7 cb)
      in if js_and cb 0x80 \<noteq> 0 then readVarInt_loop buf 0 (toInt32 A') (Suc k)
         else Inr (toInt32 A', Suc k))"
  using assms
  by (subst readVarInt_loop.simps) (simp add: Let_def js_or_shl js_and_127)

lemma readVarInt_loop_encoded:
  "k \<le> 4 \<Longrightarrow> take_bit (32 - 7 * k) n = n \<Longrightarrow> length pre = k \<Longrightarrow>
   readVarInt_loop (pre @ buffer_from (varintEncode_loop n) @ post) 0 (toInt32 A) k
     = Inr (toInt32 (A OR push_bit (7 * k) n), k + length (varintEncode_loop n))"
proof (induction n arbitrary: k pre A rule: varintEncode_loop.induct)
  case (1 v)
  let ?rest = "drop_bit 7 (take_bit 32 v)"
  have v32: "take_bit 32 v = v"
    using "1.prems"(2) by (metis take_bit_take_bit min.absorb2 diff_le_self)
  show ?case
  proof (cases "?rest = 0")
    case True
    let ?buf = "pre @ [word_of_int (take_bit 7 v)] @ post"
    have enc: "varintEncode_loop v = [take_bit 7 v]"
      using True by (subst varintEncode_loop_unfold) simp
    have small: "take_bit 7 v = v"
      using True v32 by (metis low7_or_rest push_bit_of_0 or.right_neutral)
    have ub: "uint (word_of_int v :: byte) = v"
      using uint_last_byte [of v] by (simp only: small)
    have last: "js_and v 0x80 = 0"
      using js_and_128_last [of v] by (simp only: small)
    have "readVarInt_loop ?buf 0 (toInt32 A) k = Inr (toInt32 (A OR push_bit (7 * k) v), Suc k)"
      using "1.prems"(1,3)
      by (subst readVarInt_loop_step) (simp_all add: Let_def nth_append ub last small)
    then show ?thesis
      by (simp add: enc buffer_from_def)
  next
    case False
    let ?b = "word_of_int (take_bit 7 v OR push_bit 7 1) :: byte"
    let ?buf = "pre @ (?b # buffer_from (varintEncode_loop ?rest)) @ post"
    have enc: "varintEncode_loop v = (take_bit 7 v OR push_bit 7 1) # varintEncode_loop ?rest"
      using False by (subst varintEncode_loop_unfold) simp
    have k3: "k \<le> 3"
    proof (rule ccontr)
      assume "\<not> k \<le> 3"
      with "1.prems"(1) have "k = 4" by simp
      with "1.prems"(2) have "take_bit 4 v = v" by simp
      then have "drop_bit 7 v = drop_bit 7 (take_bit 4 v)" by simp
      also have "\<dots> = 0" by (simp add: drop_bit_take_bit)
      finally show False using False v32 by simp
    qed
    have rest_range: "take_bit (32 - 7 * Suc k) ?rest = ?rest"
    proof -
      have "take_bit (32 - 7 * Suc k) (drop_bit 7 v) = drop_bit 7 (take_bit (32 - 7 * Suc k + 7) v)"
        by (simp only: take_bit_drop_bit)
      also have "32 - 7 * Suc k + 7 = 32 - 7 * k"
        using k3 by simp
      finally show ?thesis
        using "1.prems"(2) v32 by simp
    qed
    have IH: "readVarInt_loop ((pre @ [?b]) @ buffer_from (varintEncode_loop ?rest) @ post) 0
          (toInt32 (A OR push_bit (7 * k) (take_bit 7 v))) (Suc k)
        = Inr (toInt32 ((A OR push_bit (7 * k) (take_bit 7 v)) OR push_bit (7 * Suc k) ?rest),
               Suc k + length (varintEncode_loop ?rest))"
    proof -
      have ushr: "js_ushr v 7 = ?rest"
        by (simp add: js_ushr_def shiftCount_7 toUint32_def)
      show ?thesis
        using False k3 rest_range "1.prems"(3)
        by (intro "1.IH" [OF refl refl, unfolded ushr]) simp_all
    qed
    have join: "(A OR push_bit (7 * k) (take_bit 7 v)) OR push_bit (7 * Suc k) ?rest = A OR push_bit (7 * k) v"
    proof -
      have "7 * Suc k = 7 * k + 7"
        by simp
      then have "push_bit (7 * k) (take_bit 7 v) OR push_bit (7 * Suc k) ?rest = push_bit (7 * k) v"
        using split_low7 [of "7 * k" v] by (simp only: v32)
      then show ?thesis
        by (simp only: or.assoc)
    qed
    have "readVarInt_loop ?buf 0 (toInt32 A) k
        = readVarInt_loop ?buf 0 (toInt32 (A OR push_bit (7 * k) (take_bit 7 v))) (Suc k)"
      using "1.prems"(1,3)
      by (subst readVarInt_loop_step)
        (simp_all add: Let_def nth_append uint_cont_byte js_and_128_cont low7_cont take_bit_push_bit
          del: push_bit_of_1)
    also have "\<dots> = Inr (toInt32 (A OR push_bit (7 * k) v), Suc k + length (varintEncode_loop ?rest))"
    proof -
      have "(pre @ [?b]) @ buffer_from (varintEncode_loop ?rest) @ post = ?buf"
        by simp
      with IH show ?thesis
        by (simp only: join)
    qed
    finally show ?thesis
      by (simp add: enc buffer_from_def)
  qed
qed

lemma toInt32_0: "toInt32 0 = 0"
  by (simp add: toInt32_def)

lemma readVarInt_varintEncode:
  assumes "0 \<le> v" "v < 2 ^ 32"
  shows "readVarInt (varintEncode v @ post) 0 = Inr (toInt32 v, length (varintEncode v))"
proof -
  have "take_bit (32 - 7 * 0) v = v"
    using assms by (simp add: take_bit_int_eq_self)
  from readVarInt_loop_encoded [OF _ this, of "[]" post 0]
  show ?thesis
    using assms by (simp add: readVarInt_def varintEncode_def toInt32_0 buffer_from_def)
qed

lemma toInt32_unsigned:
  assumes "0 \<le> v" "v < 2 ^ 32"
  shows "toInt32 v = (if v < 2 ^ 31 then v else v - 2 ^ 32)"
proof (cases "v < 2 ^ 31")
  case True
  with assms(1) have "signed_take_bit 31 v = v"
    by (intro signed_take_bit_int_eq_self) simp_all
  with True show ?thesis
    by (simp add: toInt32_def)
next
  case False
  have "signed_take_bit 31 v = (v + 2 ^ 31) mod 2 ^ 32 - 2 ^ 31"
    by (simp add: signed_take_bit_eq_take_bit_shift take_bit_eq_mod)
  also have "(v + 2 ^ 31) mod 2 ^ 32 = (v + 2 ^ 31 - 2 ^ 32) mod 2 ^ 32"
    by (metis mod_diff_right_eq mod_self diff_zero)
  also have "\<dots> = v + 2 ^ 31 - 2 ^ 32"
    using False assms by (intro mod_pos_pos_trivial) simp_all
  finally show ?thesis
    using False by (simp add: toInt32_def)
qed

section \<open>Properties of the RCON codec\<close>

lemma length_int32_bytes: "length (int32_bytes v) = 4"
  by (simp add: int32_bytes_def)

lemma uint_byte_of_int: "uint (word_of_int k :: byte) = take_bit 8 k"
  by (simp add: uint_word_of_int_eq)

lemma shiftCount_24: "shiftCount 24 = 24"
  by (simp add: shiftCount_def toUint32_def)

lemma take_bit_split8: "take_bit (8 + n) (w::int) = take_bit 8 w + take_bit n (drop_bit 8 w) * 2 ^ 8"
proof -
  have "take_bit (8 + n) w = push_bit 8 (drop_bit 8 (take_bit (8 + n) w)) + take_bit 8 (take_bit (8 + n) w)"
    by (simp only: bits_ident)
  also have "drop_bit 8 (take_bit (8 + n) w) = take_bit n (drop_bit 8 w)"
    by (simp add: drop_bit_take_bit)
  also have "take_bit 8 (take_bit (8 + n) w) = take_bit 8 w"
    by simp
  finally show ?thesis
    by (simp add: push_bit_eq_mult)
qed

lemma low_three_bytes:
  "take_bit 8 v + take_bit 8 (drop_bit 8 v) * 2 ^ 8 + take_bit 8 (drop_bit 16 v) * 2 ^ 16
     = take_bit 24 (v::int)"
proof -
  have "take_bit 24 v = take_bit 8 v + take_bit 16 (drop_bit 8 v) * 2 ^ 8"
    using take_bit_split8 [of 16 v] by simp
  also have "take_bit 16 (drop_bit 8 v) = take_bit 8 (drop_bit 8 v) + take_bit 8 (drop_bit 16 v) * 2 ^ 8"
    using take_bit_split8 [of 8 "drop_bit 8 v"] by (simp add: drop_bit_drop_bit)
  finally show ?thesis
    by (simp add: algebra_simps)
qed

lemma int32_value:
  assumes "- 2147483648 \<le> v" "v \<le> 2147483647"
  shows "take_bit 8 v + take_bit 8 (drop_bit 8 v) * 2 ^ 8 + take_bit 8 (drop_bit 16 v) * 2 ^ 16
           + js_shl (take_bit 8 (drop_bit 24 v)) 24 = v"
proof -
  have self: "signed_take_bit 31 v = v"
    using assms by (intro signed_take_bit_int_eq_self) simp_all
  have "js_shl (take_bit 8 (drop_bit 24 v)) 24 = push_bit 24 (drop_bit 24 (signed_take_bit 31 v))"
    unfolding js_shl_def toInt32_def shiftCount_24
    by (rule bit_eqI) (auto simp: bit_simps)
  then have top: "js_shl (take_bit 8 (drop_bit 24 v)) 24 = push_bit 24 (drop_bit 24 v)"
    by (simp only: self)
  have "take_bit 8 v + take_bit 8 (drop_bit 8 v) * 2 ^ 8 + take_bit 8 (drop_bit 16 v) * 2 ^ 16
      = take_bit 24 v"
    by (rule low_three_bytes)
  then show ?thesis
    using bits_ident [of 24 v] by (simp add: top)
qed


lemma readInt32LE_int32_bytes:
  assumes "- 2147483648 \<le> v" "v \<le> 2147483647" "length pre = offset"
  shows "readInt32LE (pre @ int32_bytes v @ post) offset = Inr v"
proof -
  have nth: "(pre @ int32_bytes v @ post) ! (offset + i) = int32_bytes v ! i" if "i < 4" for i
    using that assms(3) by (simp add: nth_append length_int32_bytes)
  have "(pre @ int32_bytes v @ post) ! offset = int32_bytes v ! 0"
    using nth [of 0] by simp
  with nth [of 1] nth [of 2] nth [of 3] int32_value [OF assms(1,2)] assms(3)
  show ?thesis
    by (simp add: readInt32LE_def length_int32_bytes int32_bytes_def uint_byte_of_int)
qed

lemma writeInt32LE_in_range:
  assumes "- 2147483648 \<le> v" "v \<le> 2147483647" "length pre = offset"
  shows "writeInt32LE (pre @ replicate (4 + n) 0) v offset = Inr (pre @ int32_bytes v @ replicate n 0)"
  using assms by (simp add: writeInt32LE_def length_int32_bytes replicate_add [symmetric] del: replicate_add)


lemma and_then_Inr [simp]: "and_then (Inr x) f = f x"
  by (simp add: and_then_def)

lemma and_then_Inl [simp]: "and_then (Inl e) f = Inl e"
  by (simp add: and_then_def)

lemma createRconPacket_bytes:
  assumes t: "- 2147483648 \<le> t" "t \<le> 2147483647"
    and i: "- 2147483648 \<le> i" "i \<le> 2147483647"
    and len: "8 + int (length (utf8_encode (p @ [0]))) \<le> 2147483647"
  shows "createRconPacket t i p =
           Inr (int32_bytes (8 + int (length (utf8_encode (p @ [0])))) @ int32_bytes i @
                int32_bytes t @ utf8_encode (p @ [0]))"
proof -
  let ?pb = "utf8_encode (p @ [0])"
  let ?m = "length ?pb"
  let ?len = "8 + int ?m"
  let ?B1 = "int32_bytes ?len" and ?B2 = "int32_bytes i" and ?B3 = "int32_bytes t"
  have w1: "writeInt32LE (replicate (12 + ?m) 0) ?len 0 = Inr (?B1 @ replicate (8 + ?m) 0)"
    using writeInt32LE_in_range [of ?len "[]" 0 "8 + ?m"] len by simp
  have w2: "writeInt32LE (?B1 @ replicate (8 + ?m) 0) i 4 = Inr (?B1 @ ?B2 @ replicate (4 + ?m) 0)"
    using writeInt32LE_in_range [OF i, of ?B1 4 "4 + ?m"] by (simp add: length_int32_bytes)
  have w3: "writeInt32LE (?B1 @ ?B2 @ replicate (4 + ?m) 0) t 8 = Inr (?B1 @ ?B2 @ ?B3 @ replicate ?m 0)"
    using writeInt32LE_in_range [OF t, of "?B1 @ ?B2" 8 ?m] by (simp add: length_int32_bytes)
  have copy: "buffer_copy ?pb (?B1 @ ?B2 @ ?B3 @ replicate ?m 0) 12 = ?B1 @ ?B2 @ ?B3 @ ?pb"
    by (simp add: buffer_copy_def length_int32_bytes)
  have alloc: "buffer_alloc (nat (4 + (4 + 4 + int ?m))) = replicate (12 + ?m) 0"
    by (simp add: buffer_alloc_def nat_add_distrib)
  have "4 + 4 + int ?m = ?len"
    by simp
  then show ?thesis
    unfolding createRconPacket_def Let_def alloc
    by (simp only: w1 w2 w3 copy and_then_Inr)
qed

lemma nul_not_low: "\<not> low_surrogate 0"
  by (simp add: low_surrogate_def)

lemma unit_bytes_nul: "unit_bytes 0 = [0]"
  by (simp add: unit_bytes_def)

lemma utf8_encode_snoc_nul: "utf8_encode (p @ [0]) = utf8_encode p @ [0]"
  by (induction p rule: utf8_encode.induct) (simp_all add: nul_not_low unit_bytes_nul)

lemma ascii_not_high: "unat c < 128 \<Longrightarrow> \<not> high_surrogate c"
  by (simp add: high_surrogate_def)

lemma unit_bytes_ascii: "unat c < 128 \<Longrightarrow> unit_bytes c = [ucast c]"
  by (simp add: unit_bytes_def)

lemma ascii_byte: "unat c < 128 \<Longrightarrow> unat (ucast (c::jschar) :: byte) = unat c"
  by (simp add: unsigned_ucast_eq take_bit_nat_eq_self)

lemma buffer_toString_payload:
  assumes "length pre = 12"
  shows "buffer_toString (pre @ bs @ [z]) 12 (4 + (9 + int (length bs)) - 2) = utf8_decode (butlast bs)"
proof (cases "length bs \<le> 1")
  case True
  then have "butlast bs = []"
    by (cases bs) auto
  with True assms show ?thesis
    by (simp add: buffer_toString_def utf8_decode_def Let_def)
next
  case False
  then have "nat (int (length bs) - 1) = length bs - 1"
    by simp
  with False assms show ?thesis
    by (simp add: buffer_toString_def Let_def butlast_conv_take)
qed

lemma parseRconPacket_bytes:
  assumes t: "- 2147483648 \<le> t" "t \<le> 2147483647"
    and i: "- 2147483648 \<le> i" "i \<le> 2147483647"
    and len: "9 + int (length bs) \<le> 2147483647"
  shows "parseRconPacket (int32_bytes (9 + int (length bs)) @ int32_bytes i @ int32_bytes t @ bs @ [0])
      = Inr \<lparr>packet_length = 9 + int (length bs), packet_id = i, packet_type = t,
              payload = utf8_decode (butlast bs)\<rparr>"
proof -
  let ?len = "9 + int (length bs)"
  let ?hdr = "int32_bytes ?len @ int32_bytes i @ int32_bytes t"
  let ?data = "int32_bytes ?len @ int32_bytes i @ int32_bytes t @ bs @ [0]"
  have r1: "readInt32LE ?data 0 = Inr ?len"
    using readInt32LE_int32_bytes [of ?len "[]" 0] len by simp
  have r2: "readInt32LE ?data 4 = Inr i"
    using readInt32LE_int32_bytes [OF i, of "int32_bytes ?len" 4 "int32_bytes t @ bs @ [0]"]
    by (simp add: length_int32_bytes)
  have r3: "readInt32LE ?data 8 = Inr t"
    using readInt32LE_int32_bytes [OF t, of "int32_bytes ?len @ int32_bytes i" 8 "bs @ [0]"]
    by (simp add: length_int32_bytes)
  have size: "length ?data = 13 + length bs"
    by (simp add: length_int32_bytes)
  have "buffer_toString (?hdr @ bs @ [0]) 12 (4 + ?len - 2) = utf8_decode (butlast bs)"
    by (rule buffer_toString_payload) (simp add: length_int32_bytes)
  then have str: "buffer_toString ?data 12 (4 + ?len - 2) = utf8_decode (butlast bs)"
    by (simp only: append_assoc)
  have not_short: "\<not> length ?data < 12" and complete: "\<not> int (length ?data) < 4 + ?len"
    by (simp_all add: length_int32_bytes)
  show ?thesis
    unfolding parseRconPacket_def Let_def
    by (simp only: r1 r2 r3 and_then_Inr not_short complete str if_False)
qed

lemma rcon_roundtrip_bytes:
  assumes "- 2147483648 \<le> type'" and "type' \<le> 2147483647"
    and "- 2147483648 \<le> id'" and "id' \<le> 2147483647"
    and "9 + int (length (utf8_encode p)) \<le> 2147483647"
  shows "and_then (createRconPacket type' id' p) parseRconPacket
           = Inr \<lparr>packet_length = 9 + int (length (utf8_encode p)), packet_id = id',
                   packet_type = type', payload = utf8_decode (butlast (utf8_encode p))\<rparr>"
proof -
  have "8 + int (length (utf8_encode (p @ [0]))) = 9 + int (length (utf8_encode p))"
    by (simp add: utf8_encode_snoc_nul)
  then have "createRconPacket type' id' p
      = Inr (int32_bytes (9 + int (length (utf8_encode p))) @ int32_bytes id' @ int32_bytes type' @
             utf8_encode p @ [0])"
    using createRconPacket_bytes [OF assms(1-4), of p] assms(5)
    by (simp only: utf8_encode_snoc_nul)
  then show ?thesis
    using parseRconPacket_bytes [OF assms(1-4), of "utf8_encode p"] assms(5)
    by (simp only: and_then_Inr)
qed

section \<open>UTF-8 round trip\<close>

lemma code_point_2:
  assumes "0x80 \<le> u" "u < 0x800"
  shows "utf8_code_points ((0xC0 + u div 64) # (0x80 + u mod 64) # rest) = u # utf8_code_points rest"
proof -
  have "2 \<le> u div 64" "u div 64 < 32"
    using assms by simp_all
  moreover have "u mod 64 < 64"
    by simp
  moreover have "u div 64 * 64 + u mod 64 = u"
    by simp
  ultimately show ?thesis
    by (simp add: continuation_def)
qed

lemma split_4096: "(u::nat) = (u div 4096 * 64 + u div 64 mod 64) * 64 + u mod 64"
proof -
  have "u mod 4096 = 64 * (u div 64 mod 64) + u mod 64"
    using mod_mult2_eq [of u 64 64] by simp
  moreover have "u = u div 4096 * 4096 + u mod 4096"
    by simp
  ultimately show ?thesis
    by (simp add: algebra_simps)
qed

lemma code_point_3:
  assumes "0x800 \<le> u" "u < 0x10000" "\<not> (0xD800 \<le> u \<and> u < 0xE000)"
  shows "utf8_code_points ((0xE0 + u div 4096) # (0x80 + (u div 64) mod 64) # (0x80 + u mod 64) # rest)
           = u # utf8_code_points rest"
proof -
  define a m l where "a = u div 4096" and "m = (u div 64) mod 64" and "l = u mod 64"
  have u: "u = (a * 64 + m) * 64 + l"
    unfolding a_def m_def l_def by (rule split_4096)
  have bounds: "a < 16" "m < 64" "l < 64"
    using assms(2) by (simp_all add: a_def m_def l_def)
  have low: "32 \<le> m" if "a = 0"
    using assms(1) bounds that unfolding u by simp
  have high: "m < 32" if "a = 13"
    using assms(2,3) bounds that unfolding u by simp
  have "utf8_code_points ((0xE0 + a) # (0x80 + m) # (0x80 + l) # rest)
      = ((a * 64 + m) * 64 + l) # utf8_code_points rest"
    using bounds low high by (auto simp: continuation_def)
  then show ?thesis
    unfolding a_def m_def l_def using split_4096 [of u] by simp
qed

lemma split_262144:
  "(cp::nat) = ((cp div 262144 * 64 + cp div 4096 mod 64) * 64 + cp div 64 mod 64) * 64 + cp mod 64"
proof -
  have "cp div 4096 = cp div 4096 div 64 * 64 + cp div 4096 mod 64"
    by simp
  moreover have "cp div 4096 div 64 = cp div 262144"
    by (simp add: div_mult2_eq [symmetric])
  ultimately have "cp div 4096 = cp div 262144 * 64 + cp div 4096 mod 64"
    by simp
  with split_4096 [of cp] show ?thesis
    by simp
qed

lemma code_point_4:
  assumes "0x10000 \<le> cp" "cp < 0x110000"
  shows "utf8_code_points ((0xF0 + cp div 262144) # (0x80 + (cp div 4096) mod 64) #
            (0x80 + (cp div 64) mod 64) # (0x80 + cp mod 64) # rest)
           = cp # utf8_code_points rest"
proof -
  define a m n l where "a = cp div 262144" and "m = (cp div 4096) mod 64"
    and "n = (cp div 64) mod 64" and "l = cp mod 64"
  have cp: "cp = ((a * 64 + m) * 64 + n) * 64 + l"
    unfolding a_def m_def n_def l_def by (rule split_262144)
  have bounds: "a < 5" "m < 64" "n < 64" "l < 64"
    using assms(2) by (simp_all add: a_def m_def n_def l_def)
  have low: "16 \<le> m" if "a = 0"
    using assms(1) bounds that unfolding cp by simp
  have high: "m < 16" if "a = 4"
    using assms(2) bounds that unfolding cp by simp
  have "utf8_code_points ((0xF0 + a) # (0x80 + m) # (0x80 + n) # (0x80 + l) # rest)
      = (((a * 64 + m) * 64 + n) * 64 + l) # utf8_code_points rest"
    using bounds low high by (auto simp: continuation_def)
  then show ?thesis
    unfolding a_def m_def n_def l_def using split_262144 [of cp] by simp
qed

lemma unat_byte_of_nat: "x < 256 \<Longrightarrow> unat (word_of_nat x :: byte) = x"
  by (simp add: unat_of_nat take_bit_nat_eq_self)

lemma unat_jschar_bound: "unat (c::jschar) < 65536"
  using unsigned_less [of c, where ?'a = nat] by simp

lemma unit_code_point:
  assumes "\<not> high_surrogate c" "\<not> low_surrogate c"
  shows "utf8_code_points (map unat (unit_bytes c) @ rest) = unat c # utf8_code_points rest"
proof -
  let ?u = "unat c"
  have range: "?u < 65536"
    by (rule unat_jschar_bound)
  consider "?u < 0x80" | "0x80 \<le> ?u" "?u < 0x800" | "0x800 \<le> ?u"
    by linarith
  then show ?thesis
  proof cases
    case 1
    then show ?thesis
      by (simp add: unit_bytes_ascii ascii_byte)
  next
    case 2
    then have "map unat (unit_bytes c) = [0xC0 + ?u div 64, 0x80 + ?u mod 64]"
      by (simp add: unit_bytes_def Let_def unat_byte_of_nat del: of_nat_add)
    with code_point_2 [OF 2] show ?thesis
      by simp
  next
    case 3
    have not_surrogate: "\<not> (0xD800 \<le> ?u \<and> ?u < 0xE000)"
      using assms by (auto simp: high_surrogate_def low_surrogate_def)
    have "?u div 4096 < 16"
      using range by simp
    then have "map unat (unit_bytes c)
        = [0xE0 + ?u div 4096, 0x80 + (?u div 64) mod 64, 0x80 + ?u mod 64]"
      using 3 assms by (simp add: unit_bytes_def Let_def unat_byte_of_nat del: of_nat_add)
    with code_point_3 [OF 3 _ not_surrogate] range show ?thesis
      by simp
  qed
qed

lemma pair_code_point:
  assumes "high_surrogate c" "low_surrogate d"
  shows "utf8_code_points (map unat (pair_bytes c d) @ rest)
           = (0x10000 + (unat c - 0xD800) * 0x400 + (unat d - 0xDC00)) # utf8_code_points rest"
proof -
  define cp where "cp = 0x10000 + (unat c - 0xD800) * 0x400 + (unat d - 0xDC00)"
  have range: "0x10000 \<le> cp" "cp < 0x110000"
    using assms unfolding cp_def high_surrogate_def low_surrogate_def by linarith+
  then have "cp div 262144 < 5"
    by simp
  then have "map unat (pair_bytes c d)
      = [0xF0 + cp div 262144, 0x80 + (cp div 4096) mod 64, 0x80 + (cp div 64) mod 64, 0x80 + cp mod 64]"
    unfolding pair_bytes_def cp_def [symmetric] Let_def
    by (simp add: unat_byte_of_nat del: of_nat_add)
  with code_point_4 [OF range] show ?thesis
    unfolding cp_def by simp
qed

lemma utf16_units_unit: "utf16_units (unat (c::jschar)) = [c]"
  using unat_jschar_bound [of c] by (simp add: utf16_units_def)

lemma utf16_units_pair:
  assumes "high_surrogate c" "low_surrogate d"
  shows "utf16_units (0x10000 + (unat c - 0xD800) * 0x400 + (unat d - 0xDC00)) = [c, d]"
proof -
  define h l where "h = unat c - 0xD800" and "l = unat d - 0xDC00"
  have l: "l < 0x400" and c: "unat c = 0xD800 + h" and d: "unat d = 0xDC00 + l"
    using assms unfolding h_def l_def high_surrogate_def low_surrogate_def by linarith+
  have "(h * 0x400 + l) div 0x400 = h" "(h * 0x400 + l) mod 0x400 = l"
    using l by simp_all
  then have "utf16_units (0x10000 + h * 0x400 + l) = [word_of_nat (unat c), word_of_nat (unat d)]"
    unfolding c d by (simp add: utf16_units_def del: of_nat_add)
  then show ?thesis
    unfolding h_def l_def by simp
qed

lemma utf8_roundtrip: "well_formed q \<Longrightarrow> utf8_decode (utf8_encode q) = q"
proof (induction q rule: utf8_encode.induct)
  case 1
  show ?case
    by (simp add: utf8_decode_def)
next
  case (2 c)
  then show ?case
    using unit_code_point [of c "[]"] by (simp add: utf8_decode_def utf16_units_unit)
next
  case (3 c d ds)
  show ?case
  proof (cases "high_surrogate c")
    case True
    with "3.prems" have low: "low_surrogate d" and rest: "well_formed ds"
      by simp_all
    from "3.IH"(1) True low rest have "utf8_decode (utf8_encode ds) = ds"
      by simp
    then show ?thesis
      using True low pair_code_point [OF True low, of "map unat (utf8_encode ds)"]
      by (simp add: utf8_decode_def utf16_units_pair)
  next
    case False
    with "3.prems" have not_low: "\<not> low_surrogate c" and rest: "well_formed (d # ds)"
      by simp_all
    from "3.IH"(2) False rest have "utf8_decode (utf8_encode (d # ds)) = d # ds"
      by simp
    then show ?thesis
      using False unit_code_point [OF False not_low, of "map unat (utf8_encode (d # ds))"]
      by (simp add: utf8_decode_def utf16_units_unit)
  qed
qed

lemma utf8_encode_snoc_ascii:
  "unat c < 128 \<Longrightarrow> utf8_encode (q @ [c]) = utf8_encode q @ [ucast c]"
proof (induction q rule: utf8_encode.induct)
  case 1
  then show ?case
    by (simp add: unit_bytes_ascii)
next
  case (2 x)
  then have "\<not> low_surrogate c"
    by (simp add: low_surrogate_def)
  with 2 show ?case
    by (simp add: unit_bytes_ascii)
next
  case (3 x y ys)
  then show ?case
    by simp
qed

lemma well_formed_butlast:
  "unat c < 128 \<Longrightarrow> well_formed (q @ [c]) \<Longrightarrow> well_formed q"
proof (induction q rule: well_formed.induct)
  case 1
  show ?case
    by simp
next
  case (2 x)
  from 2(1) have "\<not> low_surrogate c"
    by (simp add: low_surrogate_def)
  with 2(2) show ?case
    by (simp split: if_splits)
next
  case (3 x y ys)
  then show ?case
    by (simp split: if_splits)
qed

section \<open>Properties of the sessions\<close>

lemma settled_settle:
  "settled (settle out s) = (case settled s of None \<Rightarrow> Some out | Some first \<Rightarrow> Some first)"
  by (simp add: settle_def)

lemma settle_calls_settle: "settle_calls (settle out s) = settle_calls s @ [out]"
  by (simp add: settle_def)

lemma settled_socket_do: "settled (socket_do c s) = settled s"
  by (simp add: socket_do_def)

lemma settle_calls_socket_do: "settle_calls (socket_do c s) = settle_calls s"
  by (simp add: socket_do_def)

lemma registered_settle: "handlers_registered (settle out s) = handlers_registered s"
  by (simp add: settle_def)

lemma registered_socket_do: "handlers_registered (socket_do c s) = handlers_registered s"
  by (simp add: socket_do_def)

lemma first_outcome_snoc:
  "first_outcome (calls @ [out]) = (case first_outcome calls of None \<Rightarrow> Some out | Some first \<Rightarrow> Some first)"
  by (cases calls) (simp_all add: first_outcome_def)

lemma settled_settle_not_None: "settled (settle out s) \<noteq> None"
  by (simp add: settle_def split: option.splits)

lemmas promise_simps =
  settled_settle settle_calls_settle settled_socket_do settle_calls_socket_do first_outcome_snoc
  registered_settle registered_socket_do

subsection \<open>What the parser and the augmentation can throw\<close>

lemma map_names_error: "map_names xs = Inl e \<Longrightarrow> e = TypeError"
proof (induction xs arbitrary: e)
  case Nil
  then show ?case by simp
next
  case (Cons player rest)
  then show ?case
    by (cases player; cases "map_names rest") (auto simp: and_then_def)
qed

lemma join_element_error: "join_element rt x = Inl e \<Longrightarrow> e = TypeError"
  by (cases x) (auto split: option.splits)

lemma js_join_error: "js_join rt xs sep = Inl e \<Longrightarrow> e = TypeError"
proof (induction rt xs sep arbitrary: e rule: js_join.induct)
  case (1 rt sep)
  then show ?case by simp
next
  case (2 rt x sep)
  then show ?case by (simp add: join_element_error)
next
  case (3 rt x y ys sep)
  then show ?case
    by (cases "join_element rt x"; cases "js_join rt (y # ys) sep")
      (auto simp: and_then_def join_element_error)
qed

lemma js_set_error: "js_set v k x = Inl e \<Longrightarrow> e = TypeError"
  by (cases v) auto

lemma js_get_error: "js_get v k = Inl e \<Longrightarrow> e = TypeError"
  by (cases v) auto

lemma js_get_optional_error: "js_get_optional v k = Inl e \<Longrightarrow> e = TypeError"
  by (auto simp: js_get_optional_def js_get_error split: if_splits)

lemma js_gt_zero_error: "js_gt_zero rt v = Inl e \<Longrightarrow> e = TypeError"
  by (cases v) (auto split: option.splits)

lemma sample_map_names_error: "sample_map_names v = Inl e \<Longrightarrow> e = TypeError"
  by (cases v) (auto simp: map_names_error)

lemma and_then_error:
  assumes "and_then r f = Inl e"
    and "r = Inl e \<Longrightarrow> P" and "\<And>x. r = Inr x \<Longrightarrow> f x = Inl e \<Longrightarrow> P"
  shows P
  using assms by (cases r) (auto simp: and_then_def)

lemma augment_status_error:
  assumes "augment_status rt result = Inl e"
  shows "e = TypeError"
  using assms unfolding augment_status_def
  by (auto elim!: and_then_error split: if_splits)
    (erule js_set_error js_get_error js_get_optional_error js_gt_zero_error
       sample_map_names_error js_join_error)+

subsection \<open>Status session\<close>

lemma status_on_data_keeps:
  "settled s = Some out \<Longrightarrow> settled (status_on_data rt chunk s) = Some out"
  by (simp add: status_on_data_def status_catch_def Let_def promise_simps split: sum.splits)

lemma status_handle_keeps:
  "settled s = Some out \<Longrightarrow> settled (status_handle rt host port ev s) = Some out"
  by (cases ev) (simp_all add: status_on_data_keeps promise_simps)

lemma status_run_keeps:
  "settled s = Some out \<Longrightarrow> settled (status_run rt host port evs s) = Some out"
  by (induction evs arbitrary: s) (simp_all add: status_handle_keeps)

lemma status_run_append:
  "status_run rt host port (evs @ evs') s = status_run rt host port evs' (status_run rt host port evs s)"
  by (induction evs arbitrary: s) simp_all

lemma status_on_data_first:
  "settled s = first_outcome (settle_calls s) \<Longrightarrow>
   settled (status_on_data rt chunk s) = first_outcome (settle_calls (status_on_data rt chunk s))"
  by (simp add: status_on_data_def status_catch_def Let_def promise_simps split: sum.splits)

lemma status_handle_first:
  "settled s = first_outcome (settle_calls s) \<Longrightarrow>
   settled (status_handle rt host port ev s) = first_outcome (settle_calls (status_handle rt host port ev s))"
  by (cases ev) (simp_all add: status_on_data_first promise_simps)

lemma status_run_first:
  "settled s = first_outcome (settle_calls s) \<Longrightarrow>
   settled (status_run rt host port evs s) = first_outcome (settle_calls (status_run rt host port evs s))"
  by (induction evs arbitrary: s) (simp_all add: status_handle_first)

lemma status_on_data_registered:
  "handlers_registered (status_on_data rt chunk s) = handlers_registered s"
  by (simp add: status_on_data_def status_catch_def Let_def promise_simps split: sum.splits)

lemma status_handle_registered:
  "handlers_registered (status_handle rt host port ev s) = handlers_registered s"
  by (cases ev) (simp_all add: status_on_data_registered promise_simps)

lemma status_run_registered:
  "handlers_registered (status_run rt host port evs s) = handlers_registered s"
  by (induction evs arbitrary: s) (simp_all add: status_handle_registered)

text \<open>Once \<open>hasReceivedResponse\<close> is set, the session has an outcome.\<close>

lemma status_on_data_received:
  assumes "hasReceivedResponse s \<longrightarrow> settled s \<noteq> None"
  shows "hasReceivedResponse (status_on_data rt chunk s) \<longrightarrow> settled (status_on_data rt chunk s) \<noteq> None"
proof (cases "parseStatusResponse rt (data s @ chunk)")
  case (Inl e)
  with assms show ?thesis
    by (simp add: status_on_data_def status_catch_def Let_def settle_def socket_do_def
        split: option.splits)
next
  case parsed: (Inr result)
  show ?thesis
  proof (cases "augment_status rt result")
    case (Inl e)
    then have "e = TypeError"
      by (rule augment_status_error)
    with parsed Inl show ?thesis
      by (simp add: status_on_data_def status_catch_def Let_def settled_settle_not_None)
  next
    case (Inr result1)
    with parsed show ?thesis
      by (simp add: status_on_data_def Let_def settled_settle_not_None)
  qed
qed

lemma status_handle_received:
  assumes "hasReceivedResponse s \<longrightarrow> settled s \<noteq> None"
  shows "hasReceivedResponse (status_handle rt host port ev s) \<longrightarrow>
         settled (status_handle rt host port ev s) \<noteq> None"
  using assms status_on_data_received [OF assms, of rt]
  by (cases ev) (auto simp: settle_def socket_do_def split: option.splits)

lemma status_run_received:
  assumes "hasReceivedResponse s \<longrightarrow> settled s \<noteq> None"
  shows "hasReceivedResponse (status_run rt host port evs s) \<longrightarrow>
         settled (status_run rt host port evs s) \<noteq> None"
  using assms
proof (induction evs arbitrary: s)
  case Nil
  then show ?case by simp
next
  case (Cons ev evs)
  from Cons.prems have "hasReceivedResponse (status_handle rt host port ev s) \<longrightarrow>
      settled (status_handle rt host port ev s) \<noteq> None"
    by (rule status_handle_received)
  then show ?case
    using Cons.IH by simp
qed

text \<open>The events at which a handler of the status session calls \<^verbatim>\<open>resolve\<close> or \<^verbatim>\<open>reject\<close>.\<close>

lemma status_on_data_settles:
  assumes "hasReceivedResponse s \<longrightarrow> settled s \<noteq> None"
  shows "settled (status_on_data rt chunk s) \<noteq> None \<longleftrightarrow>
         settled s \<noteq> None \<or> parseStatusResponse rt (data s @ chunk) \<noteq> Inl IncompleteData"
proof (cases "parseStatusResponse rt (data s @ chunk)")
  case (Inl e)
  then show ?thesis
    by (simp add: status_on_data_def status_catch_def Let_def settle_def socket_do_def
        split: option.splits)
next
  case parsed: (Inr result)
  show ?thesis
  proof (cases "augment_status rt result")
    case (Inl e)
    then have "e = TypeError"
      by (rule augment_status_error)
    with parsed Inl show ?thesis
      by (simp add: status_on_data_def status_catch_def Let_def settled_settle_not_None)
  next
    case (Inr result1)
    with parsed show ?thesis
      by (simp add: status_on_data_def Let_def settled_settle_not_None)
  qed
qed

lemma status_handle_settles:
  assumes "hasReceivedResponse s \<longrightarrow> settled s \<noteq> None"
  shows "settled (status_handle rt host port ev s) \<noteq> None \<longleftrightarrow>
         settled s \<noteq> None \<or> ev = OnTimeout \<or> (\<exists>err. ev = OnError err) \<or>
         handlers_registered s \<and>
           (ev = OnEnd \<or> ev = OnClose \<or>
            (\<exists>chunk. ev = OnData chunk \<and>
               parseStatusResponse rt (data s @ chunk) \<noteq> Inl IncompleteData))"
  using assms status_on_data_settles [OF assms, of rt]
  by (cases ev) (auto simp: settle_def socket_do_def split: option.splits)

lemma split_at_Cons:
  "(\<exists>pre x post. ev # evs = pre @ x # post \<and> Q pre x) \<longleftrightarrow>
   Q [] ev \<or> (\<exists>pre x post. evs = pre @ x # post \<and> Q (ev # pre) x)"
proof
  assume "\<exists>pre x post. ev # evs = pre @ x # post \<and> Q pre x"
  then obtain pre x post where eq: "ev # evs = pre @ x # post" and Q: "Q pre x"
    by blast
  show "Q [] ev \<or> (\<exists>pre x post. evs = pre @ x # post \<and> Q (ev # pre) x)"
  proof (cases pre)
    case Nil
    with eq Q show ?thesis by simp
  next
    case (Cons p pre')
    with eq Q have "evs = pre' @ x # post" "Q (ev # pre') x"
      by simp_all
    then show ?thesis by blast
  qed
next
  assume "Q [] ev \<or> (\<exists>pre x post. evs = pre @ x # post \<and> Q (ev # pre) x)"
  then show "\<exists>pre x post. ev # evs = pre @ x # post \<and> Q pre x"
  proof
    assume "Q [] ev"
    then have "ev # evs = [] @ ev # evs \<and> Q [] ev"
      by simp
    then show ?thesis by blast
  next
    assume "\<exists>pre x post. evs = pre @ x # post \<and> Q (ev # pre) x"
    then obtain pre x post where "evs = pre @ x # post" "Q (ev # pre) x"
      by blast
    then have "ev # evs = (ev # pre) @ x # post \<and> Q (ev # pre) x"
      by simp
    then show ?thesis by blast
  qed
qed

lemma status_run_settles:
  assumes "hasReceivedResponse s \<longrightarrow> settled s \<noteq> None"
  shows "settled (status_run rt host port evs s) \<noteq> None \<longleftrightarrow>
         settled s \<noteq> None \<or> OnTimeout \<in> set evs \<or> (\<exists>err. OnError err \<in> set evs) \<or>
         handlers_registered s \<and>
           (OnEnd \<in> set evs \<or> OnClose \<in> set evs \<or>
            (\<exists>pre x post. evs = pre @ x # post \<and>
               (\<exists>chunk. x = OnData chunk \<and>
                  parseStatusResponse rt (data (status_run rt host port pre s) @ chunk)
                    \<noteq> Inl IncompleteData)))"
  using assms
proof (induction evs arbitrary: s)
  case Nil
  then show ?case by simp
next
  case (Cons ev evs)
  let ?s' = "status_handle rt host port ev s"
  have inv': "hasReceivedResponse ?s' \<longrightarrow> settled ?s' \<noteq> None"
    using Cons.prems by (rule status_handle_received)
  note IH = Cons.IH [OF inv']
  note step = status_handle_settles [OF Cons.prems, of rt host port ev]
  note split = split_at_Cons [of ev evs
      "\<lambda>pre x. \<exists>chunk. x = OnData chunk \<and>
         parseStatusResponse rt (data (status_run rt host port pre s) @ chunk) \<noteq> Inl IncompleteData"]
  have members: "OnTimeout \<in> set (ev # evs) \<longleftrightarrow> ev = OnTimeout \<or> OnTimeout \<in> set evs"
    "(\<exists>err. OnError err \<in> set (ev # evs)) \<longleftrightarrow> (\<exists>err. ev = OnError err) \<or> (\<exists>err. OnError err \<in> set evs)"
    "OnEnd \<in> set (ev # evs) \<longleftrightarrow> ev = OnEnd \<or> OnEnd \<in> set evs"
    "OnClose \<in> set (ev # evs) \<longleftrightarrow> ev = OnClose \<or> OnClose \<in> set evs"
    by auto
  show ?case
    unfolding split members status_run.simps
    using IH step unfolding status_handle_registered by blast
qed

subsection \<open>RCON session\<close>

lemma rcon_on_data_keeps:
  "settled s = Some out \<Longrightarrow> settled (rcon_on_data command chunk s) = Some out"
  by (simp add: rcon_on_data_def rcon_catch_def Let_def promise_simps split: sum.splits)

lemma rcon_handle_keeps:
  "settled s = Some out \<Longrightarrow> settled (rcon_handle password command ev s) = Some out"
  by (cases ev) (simp_all add: rcon_on_data_keeps promise_simps split: sum.splits)

lemma rcon_run_keeps:
  "settled s = Some out \<Longrightarrow> settled (rcon_run password command evs s) = Some out"
  by (induction evs arbitrary: s) (simp_all add: rcon_handle_keeps)

lemma rcon_run_append:
  "rcon_run password command (evs @ evs') s
     = rcon_run password command evs' (rcon_run password command evs s)"
  by (induction evs arbitrary: s) simp_all

lemma rcon_on_data_first:
  "settled s = first_outcome (settle_calls s) \<Longrightarrow>
   settled (rcon_on_data command chunk s) = first_outcome (settle_calls (rcon_on_data command chunk s))"
  by (simp add: rcon_on_data_def rcon_catch_def Let_def promise_simps split: sum.splits)

lemma rcon_handle_first:
  "settled s = first_outcome (settle_calls s) \<Longrightarrow>
   settled (rcon_handle password command ev s)
     = first_outcome (settle_calls (rcon_handle password command ev s))"
  by (cases ev) (simp_all add: rcon_on_data_first promise_simps split: sum.splits)

lemma rcon_run_first:
  "settled s = first_outcome (settle_calls s) \<Longrightarrow>
   settled (rcon_run password command evs s)
     = first_outcome (settle_calls (rcon_run password command evs s))"
  by (induction evs arbitrary: s) (simp_all add: rcon_handle_first)

lemma rcon_on_data_registered:
  "handlers_registered (rcon_on_data command chunk s) = handlers_registered s"
  by (simp add: rcon_on_data_def rcon_catch_def Let_def promise_simps split: sum.splits)

lemma rcon_handle_registered:
  "handlers_registered (rcon_handle password command ev s) = handlers_registered s"
  by (cases ev) (simp_all add: rcon_on_data_registered promise_simps split: sum.splits)

text \<open>Once \<open>responseData\<close> is not empty, the session has an outcome.\<close>

lemma rcon_on_data_response:
  assumes "responseData s \<noteq> [] \<longrightarrow> settled s \<noteq> None"
  shows "responseData (rcon_on_data command chunk s) \<noteq> [] \<longrightarrow>
         settled (rcon_on_data command chunk s) \<noteq> None"
  using assms
  by (auto simp: rcon_on_data_def rcon_catch_def Let_def settle_def socket_do_def
      split: sum.splits option.splits)

lemma rcon_handle_response:
  assumes "responseData s \<noteq> [] \<longrightarrow> settled s \<noteq> None"
  shows "responseData (rcon_handle password command ev s) \<noteq> [] \<longrightarrow>
         settled (rcon_handle password command ev s) \<noteq> None"
  using assms rcon_on_data_response [OF assms, of command]
  by (cases ev) (auto simp: settle_def socket_do_def split: sum.splits option.splits)

text \<open>Events at which a handler of the RCON session calls \<^verbatim>\<open>resolve\<close> or \<^verbatim>\<open>reject\<close>.\<close>

lemma rcon_handle_settles:
  assumes "responseData s \<noteq> [] \<longrightarrow> settled s \<noteq> None"
    and "settled s \<noteq> None \<or> ev = OnTimeout \<or> (\<exists>err. ev = OnError err) \<or>
         handlers_registered s \<and>
           (ev = OnEnd \<or>
            (\<exists>chunk packetInfo. ev = OnData chunk \<and> authenticated s \<and>
               parseRconPacket chunk = Inr packetInfo \<and> packet_id packetInfo = 0x456))"
  shows "settled (rcon_handle password command ev s) \<noteq> None"
proof (cases "settled s")
  case (Some out)
  then show ?thesis
    by (simp add: rcon_handle_keeps)
next
  case None
  with assms show ?thesis
    by (cases ev)
      (auto simp: rcon_on_data_def Let_def settle_def socket_do_def split: option.splits)
qed

lemma rcon_run_settles:
  assumes "responseData s \<noteq> [] \<longrightarrow> settled s \<noteq> None"
    and "settled s \<noteq> None \<or> OnTimeout \<in> set evs \<or> (\<exists>err. OnError err \<in> set evs) \<or>
         handlers_registered s \<and>
           (OnEnd \<in> set evs \<or>
            (\<exists>pre x post. evs = pre @ x # post \<and>
               (\<exists>chunk packetInfo. x = OnData chunk \<and>
                  authenticated (rcon_run password command pre s) \<and>
                  parseRconPacket chunk = Inr packetInfo \<and> packet_id packetInfo = 0x456)))"
  shows "settled (rcon_run password command evs s) \<noteq> None"
  using assms
proof (induction evs arbitrary: s)
  case Nil
  then show ?case by simp
next
  case (Cons ev evs)
  let ?s' = "rcon_handle password command ev s"
  have inv': "responseData ?s' \<noteq> [] \<longrightarrow> settled ?s' \<noteq> None"
    using Cons.prems(1) by (rule rcon_handle_response)
  note step = rcon_handle_settles [OF Cons.prems(1), of ev password command]
  note split = split_at_Cons [of ev evs
      "\<lambda>pre x. \<exists>chunk packetInfo. x = OnData chunk \<and>
         authenticated (rcon_run password command pre s) \<and>
         parseRconPacket chunk = Inr packetInfo \<and> packet_id packetInfo = 0x456"]
  have members: "OnTimeout \<in> set (ev # evs) \<longleftrightarrow> ev = OnTimeout \<or> OnTimeout \<in> set evs"
    "(\<exists>err. OnError err \<in> set (ev # evs)) \<longleftrightarrow> (\<exists>err. ev = OnError err) \<or> (\<exists>err. OnError err \<in> set evs)"
    "OnEnd \<in> set (ev # evs) \<longleftrightarrow> ev = OnEnd \<or> OnEnd \<in> set evs"
    by auto
  have "settled ?s' \<noteq> None \<or> OnTimeout \<in> set evs \<or> (\<exists>err. OnError err \<in> set evs) \<or>
         handlers_registered ?s' \<and>
           (OnEnd \<in> set evs \<or>
            (\<exists>pre x post. evs = pre @ x # post \<and>
               (\<exists>chunk packetInfo. x = OnData chunk \<and>
                  authenticated (rcon_run password command pre ?s') \<and>
                  parseRconPacket chunk = Inr packetInfo \<and> packet_id packetInfo = 0x456)))"
    using Cons.prems(2) step
    unfolding split members rcon_run.simps rcon_handle_registered by blast
  with inv' have "settled (rcon_run password command evs ?s') \<noteq> None"
    by (rule Cons.IH)
  then show ?case
    by simp
qed

text \<open>The \<^verbatim>\<open>connect\<close> callback and the \<^verbatim>\<open>'close'\<close> handler call neither \<^verbatim>\<open>resolve\<close> nor \<^verbatim>\<open>reject\<close>.\<close>

lemma rcon_run_quiet:
  assumes "\<forall>ev\<in>set evs. ev = OnConnect \<or> ev = OnClose"
  shows "settled (rcon_run password command evs s) = settled s"
  using assms
  by (induction evs arbitrary: s) (auto simp: socket_do_def split: sum.splits)

subsection \<open>The sessions at their start\<close>

lemma start_first:
  "settled (status_start host port) = first_outcome (settle_calls (status_start host port))"
  "settled (rcon_start host port) = first_outcome (settle_calls (rcon_start host port))"
  by (simp_all add: status_start_def rcon_start_def first_outcome_def settle_def)

lemma start_registered:
  "handlers_registered (status_start host port) = valid_port port"
  "handlers_registered (rcon_start host port) = valid_port port"
  by (simp_all add: status_start_def rcon_start_def settle_def)

lemma start_settled:
  "settled (status_start host port) \<noteq> None \<longleftrightarrow> \<not> valid_port port"
  "settled (rcon_start host port) \<noteq> None \<longleftrightarrow> \<not> valid_port port"
  by (simp_all add: status_start_def rcon_start_def settle_def)

lemma start_invariant:
  "hasReceivedResponse (status_start host port) \<longrightarrow> settled (status_start host port) \<noteq> None"
  "responseData (rcon_start host port) \<noteq> [] \<longrightarrow> settled (rcon_start host port) \<noteq> None"
  by (simp_all add: status_start_def rcon_start_def settle_def)

lemma start_data: "data (status_start host port) = []"
  by (simp add: status_start_def buffer_alloc_def settle_def)

text \<open>The status session appends every chunk to \<open>data\<close>.\<close>

lemma status_on_data_data: "data (status_on_data rt chunk s) = data s @ chunk"
  by (simp add: status_on_data_def status_catch_def Let_def settle_def socket_do_def
      split: sum.splits)

lemma status_handle_data:
  "handlers_registered s \<Longrightarrow>
   data (status_handle rt host port ev s) = data s @ received_bytes [ev]"
  by (cases ev) (simp_all add: status_on_data_data settle_def socket_do_def)

lemma received_bytes_Cons: "received_bytes (ev # evs) = received_bytes [ev] @ received_bytes evs"
  by (cases ev) simp_all

lemma status_run_data:
  "handlers_registered s \<Longrightarrow>
   data (status_run rt host port evs s) = data s @ received_bytes evs"
proof (induction evs arbitrary: s)
  case Nil
  then show ?case by simp
next
  case (Cons ev evs)
  then show ?case
    using received_bytes_Cons [of ev evs]
    by (simp add: status_handle_registered status_handle_data del: status_handle.simps)
qed

subsection \<open>RCON packets\<close>

lemma readInt32LE_ok: "offset + 4 \<le> length buf \<Longrightarrow> \<exists>v. readInt32LE buf offset = Inr v"
  by (simp add: readInt32LE_def)

lemma sentinel_packet:
  "parseRconPacket [0x0A, 0, 0, 0, 0xFF, 0xFF, 0xFF, 0xFF, 0x02, 0, 0, 0, 0, 0]
     = Inr \<lparr>packet_length = 10, packet_id = - 1, packet_type = 2, payload = []\<rparr>"
  by (simp add: parseRconPacket_def readInt32LE_def js_shl_def shiftCount_24 toInt32_def
      buffer_toString_def)

lemma auth_ok_packet:
  "parseRconPacket [0x0A, 0, 0, 0, 0x23, 0x01, 0, 0, 0x02, 0, 0, 0, 0, 0]
     = Inr \<lparr>packet_length = 10, packet_id = 0x123, packet_type = 2, payload = []\<rparr>"
  by (simp add: parseRconPacket_def readInt32LE_def js_shl_def shiftCount_24 toInt32_def
      buffer_toString_def)

lemma auth_ok_packet_split:
  "parseRconPacket [0x0A, 0, 0, 0, 0x23, 0x01, 0, 0, 0x02, 0, 0, 0, 0] = Inl IncompleteRconPacket"
  by (simp add: parseRconPacket_def readInt32LE_def js_shl_def shiftCount_24 toInt32_def)

lemma empty_response_packet:
  "parseRconPacket [0x0A, 0, 0, 0, 0x56, 0x04, 0, 0, 0, 0, 0, 0, 0, 0]
     = Inr \<lparr>packet_length = 10, packet_id = 0x456, packet_type = 0, payload = []\<rparr>"
  by (simp add: parseRconPacket_def readInt32LE_def js_shl_def shiftCount_24 toInt32_def
      buffer_toString_def)

lemma create_list_command: "\<exists>packet. createRconPacket 0x02 0x456 (js_str ''list'') = Inr packet"
proof -
  have "length (utf8_encode (js_str ''list'' @ [0])) = 5"
    by (simp add: utf8_encode_snoc_nul) (simp add: js_str_def unit_bytes_def high_surrogate_def)
  then show ?thesis
    using createRconPacket_bytes [of "0x02" "0x456" "js_str ''list''"] by simp
qed

subsection \<open>The status result\<close>

lemma key_distinct:
  "js_str ''players'' \<noteq> js_str ''online''"
  "js_str ''online'' \<noteq> js_str ''players''"
  "js_str ''nicknames'' \<noteq> js_str ''players''"
  "js_str ''players'' \<noteq> js_str ''nicknames''"
  by (simp_all add: js_str_def)

lemma own_property_update:
  "own_property (AList.update k v kvs) k' = (if k' = k then v else own_property kvs k')"
  by (simp add: own_property_def update_conv')

lemma augment_status_players:
  assumes "map_of kvs (js_str ''players'') = Some (JObj pkvs)"
    and "map_of pkvs (js_str ''online'') = Some players_online"
  shows "augment_status rt (JObj kvs) =
     (let result1 = JObj (AList.update (js_str ''online'') (JBool True) kvs) in
      if \<not> js_truthy players_online then Inr result1
      else
        and_then (js_gt_zero rt players_online) (\<lambda>positive.
          if \<not> positive then Inr result1
          else
            and_then (sample_map_names (own_property pkvs (js_str ''sample''))) (\<lambda>names.
            and_then (js_join rt names (js_str '', '')) (\<lambda>nicknames.
              Inr (JObj (AList.update (js_str ''players'')
                     (JObj (AList.update (js_str ''nicknames'') (JStr nicknames) pkvs))
                     (AList.update (js_str ''online'') (JBool True) kvs)))))))"
proof -
  have players: "own_property kvs (js_str ''players'') = JObj pkvs"
    and online: "own_property pkvs (js_str ''online'') = players_online"
    using assms by (simp_all add: own_property_def)
  show ?thesis
    by (simp add: augment_status_def js_get_optional_def own_property_update key_distinct Let_def
        players online cong: if_cong)
qed

text \<open>The names of a sample of named players, and their \<^verbatim>\<open>join\<close>.\<close>

lemma map_names_named:
  assumes "list_all2 (\<lambda>player name. \<exists>props. player = JObj props \<and>
             map_of props (js_str ''name'') = Some (JStr name)) sample names"
  shows "map_names sample = Inr (map JStr names)"
  using assms
  by (induction sample names rule: list_all2_induct) (auto simp: own_property_def)

lemma comma_joined_simps:
  "comma_joined [] = []"
  "comma_joined [name] = name"
  "comma_joined (name # name' # names) = name @ js_str '', '' @ comma_joined (name' # names)"
  by (simp_all add: comma_joined_def)

lemma js_join_names: "js_join rt (map JStr names) (js_str '', '') = Inr (comma_joined names)"
  by (induction names rule: induct_list012) (simp_all add: comma_joined_simps)

lemma status_on_data_resolved:
  assumes "parseStatusResponse rt (data s @ chunk) = Inr result"
    and "augment_status rt result = Inr result1"
  shows "status_on_data rt chunk s
           = settle (Resolved result1)
               (socket_do End (s\<lparr>data := data s @ chunk, hasReceivedResponse := True\<rparr>))"
  using assms by (simp add: status_on_data_def Let_def)

lemma status_on_data_thrown:
  assumes "parseStatusResponse rt (data s @ chunk) = Inr result"
    and "augment_status rt result = Inl e" and "e \<noteq> IncompleteData"
  shows "status_on_data rt chunk s
           = settle (Rejected e)
               (socket_do End (socket_do End (s\<lparr>data := data s @ chunk, hasReceivedResponse := True\<rparr>)))"
  using assms by (simp add: status_on_data_def status_catch_def Let_def)

lemma status_on_data_parse_error:
  assumes "parseStatusResponse rt (data s @ chunk) = Inl e" and "e \<noteq> IncompleteData"
  shows "status_on_data rt chunk s
           = settle (Rejected e) (socket_do End (s\<lparr>data := data s @ chunk\<rparr>))"
  using assms by (simp add: status_on_data_def status_catch_def Let_def)

lemmas js_eval = readVarInt_def readVarInt_loop.simps js_and_def js_or_def js_shl_def toInt32_def
  shiftCount_def toUint32_def

lemma example_response:
  "parseStatusResponse (example_runtime (Some v)) [0x03, 0x00, 0x01, 0x7B] = Inr v"
  by (simp add: parseStatusResponse_def js_eval Let_def buffer_toString_def example_runtime_def)

lemma example_ports: "valid_port 25565" "valid_port 25575"
  by (simp_all add: valid_port_def)

section \<open>Claims about the VarInt codec\<close>

text \<open>
  C3.  The claim: a negative input of \<open>varintEncode\<close> is first remapped to \<open>2 ^ 32 + value\<close>,
  so that \<open>varintEncode (- 1)\<close> is the five-byte encoding of \<open>0xFFFFFFFF\<close>.  The source
  writes the remapping as \<^verbatim>\<open>(1 << 32) + value\<close>, and the 32-bit shift of the language gives
  \<^verbatim>\<open>1 << 32 = 1\<close>: the encoder adds 1 instead of \<open>2 ^ 32\<close>, and \<open>- 1\<close> is encoded as the single
  byte \<open>0x00\<close>, which is not the encoding of \<open>0xFFFFFFFF\<close>.
\<close>

theorem varintEncode_minus_one:
  "js_shl 1 32 = 1 \<and> varintEncode (- 1) = [0x00] \<and>
   varintEncode 0xFFFFFFFF = [0xFF, 0xFF, 0xFF, 0xFF, 0x0F]"
  by code_simp

text \<open>
  C4.  The claim: for every unsigned 32-bit \<open>v\<close>, reading \<open>varintEncode v\<close> at offset 0 gives
  \<open>v\<close> and the number of bytes written.  It fails from \<open>2 ^ 31\<close> on: \<open>readVarInt\<close> builds
  the value with the signed 32-bit operators \<^verbatim>\<open>|\<close> and \<^verbatim>\<open><<\<close>, so \<open>0xFFFFFFFF\<close> is read back
  as \<open>- 1\<close>.
\<close>

theorem varint_roundtrip_unsigned_counterexample:
  "readVarInt (varintEncode 0xFFFFFFFF) 0 = Inr (- 1, 5) \<and>
   readVarInt (varintEncode 0xFFFFFFFF) 0 \<noteq> Inr (0xFFFFFFFF, length (varintEncode 0xFFFFFFFF))"
  by code_simp

text \<open>
  C4, amended.  For every unsigned 32-bit \<open>v\<close>, reading \<open>varintEncode v\<close> at offset 0 gives the
  number of bytes written and \<open>v\<close> read as a signed 32-bit integer: \<open>v\<close> itself below
  \<open>2 ^ 31\<close>, and \<open>v - 2 ^ 32\<close> from there on.
\<close>

theorem varint_roundtrip_signed:
  assumes "0 \<le> v" and "v < 2 ^ 32"
  shows "readVarInt (varintEncode v) 0 =
           Inr (if v < 2 ^ 31 then v else v - 2 ^ 32, length (varintEncode v))"
  using readVarInt_varintEncode [OF assms, of "[]"] toInt32_unsigned [OF assms]
  by simp

theorem varint_roundtrip_signed_witness:
  "readVarInt (varintEncode 300) 0 = Inr (300, length (varintEncode 300)) \<and>
   readVarInt (varintEncode 2147483648) 0 = Inr (- 2147483648, length (varintEncode 2147483648))"
proof -
  have "readVarInt (varintEncode 300) 0 = Inr (300, length (varintEncode 300))"
    using varint_roundtrip_signed [of 300] by simp
  moreover have "readVarInt (varintEncode 2147483648) 0
      = Inr (- 2147483648, length (varintEncode 2147483648))"
    using varint_roundtrip_signed [of 2147483648] by simp
  ultimately show ?thesis
    by (rule conjI)
qed

section \<open>Claims about the RCON codec\<close>

text \<open>
  C8.  For every type and request id in the signed 32-bit range and every payload string
  (whose packet length fits the signed 32-bit length field), \<open>createRconPacket\<close> returns a
  packet whose length field is 4 + 4 + the number of bytes of the UTF-8 payload followed
  by one NUL, whose size is 4 + that length, and which consists of the three
  little-endian 32-bit fields length, request id and type followed by the payload bytes
  and the NUL.
\<close>

theorem createRconPacket_layout:
  assumes "- 2147483648 \<le> type'" and "type' \<le> 2147483647"
    and "- 2147483648 \<le> id'" and "id' \<le> 2147483647"
    and "4 + 4 + int (length (utf8_encode payload' @ [0])) \<le> 2147483647"
  shows "(let length' = 4 + 4 + int (length (utf8_encode payload' @ [0]));
              packet = int32_bytes length' @ int32_bytes id' @ int32_bytes type' @
                         utf8_encode payload' @ [0]
          in createRconPacket type' id' payload' = Inr packet \<and>
             int (length packet) = 4 + length' \<and>
             readInt32LE packet 0 = Inr length' \<and>
             readInt32LE packet 4 = Inr id' \<and>
             readInt32LE packet 8 = Inr type')"
proof -
  let ?pb = "utf8_encode payload' @ [0]"
  let ?len = "8 + int (length ?pb)"
  let ?packet = "int32_bytes ?len @ int32_bytes id' @ int32_bytes type' @ ?pb"
  have len: "?len \<le> 2147483647"
    using assms(5) by simp
  have "createRconPacket type' id' payload' = Inr ?packet"
    using createRconPacket_bytes [OF assms(1-4), of payload'] len
    by (simp only: utf8_encode_snoc_nul)
  moreover have "int (length ?packet) = 4 + ?len"
    by (simp add: length_int32_bytes)
  moreover have "readInt32LE ?packet 0 = Inr ?len"
    using readInt32LE_int32_bytes [of ?len "[]" 0] len by simp
  moreover have "readInt32LE ?packet 4 = Inr id'"
    using readInt32LE_int32_bytes [OF assms(3,4), of "int32_bytes ?len" 4 "int32_bytes type' @ ?pb"]
    by (simp add: length_int32_bytes)
  moreover have "readInt32LE ?packet 8 = Inr type'"
    using readInt32LE_int32_bytes [OF assms(1,2), of "int32_bytes ?len @ int32_bytes id'" 8 ?pb]
    by (simp add: length_int32_bytes)
  moreover have "4 + 4 + int (length ?pb) = ?len"
    by simp
  ultimately show ?thesis
    unfolding Let_def by (simp only: simp_thms)
qed

theorem createRconPacket_layout_witness:
  "createRconPacket 3 0x123 (js_str ''pw'')
     = Inr (int32_bytes 11 @ int32_bytes 0x123 @ int32_bytes 3 @ utf8_encode (js_str ''pw'') @ [0])"
proof -
  have len: "length (utf8_encode (js_str ''pw'')) = 2"
    by (simp add: js_str_def unit_bytes_def high_surrogate_def)
  show ?thesis
    using createRconPacket_layout [of 3 "0x123" "js_str ''pw''"]
    by (simp add: Let_def len)
qed

text \<open>
  C9.  The claim: for every type, request id and non-empty payload \<open>p\<close>, parsing the packet
  made from them gives a payload equal to \<open>p\<close> without its last character.  The parser drops
  the last two bytes, the encoder appends one NUL, so what is lost is the last byte of
  the UTF-8 form of \<open>p\<close>: a payload that ends in a character of more than one byte, such as
  \<^verbatim>\<open>"\u00E9"\<close>, keeps the first bytes of that character and is decoded with U+FFFD in its
  place.
\<close>

theorem rcon_roundtrip_counterexample:
  "and_then (createRconPacket 2 0x456 [0xE9]) parseRconPacket
     = Inr \<lparr>packet_length = 11, packet_id = 0x456, packet_type = 2, payload = [0xFFFD]\<rparr> \<and>
   butlast [0xE9 :: jschar] \<noteq> [0xFFFD]"
proof -
  have enc: "unit_bytes 0xE9 = [0xC3, 0xA9]"
    by (simp add: unit_bytes_def)
  have dec: "utf8_decode [0xC3] = [0xFFFD]"
    by (simp add: utf8_decode_def utf16_units_def)
  show ?thesis
    using rcon_roundtrip_bytes [of 2 "0x456" "[0xE9]"] by (simp add: enc dec)
qed

text \<open>
  C9, amended.  For every type and request id in the signed 32-bit range and every payload
  \<open>p\<close>, parsing the packet made from them gives the type and the id back, and as payload the
  decoding of the UTF-8 bytes of \<open>p\<close> without their last byte; when \<open>p\<close> is well formed and
  ends in an ASCII character, this is \<open>p\<close> without its last character.
\<close>

theorem rcon_roundtrip_payload:
  assumes "- 2147483648 \<le> type'" and "type' \<le> 2147483647"
    and "- 2147483648 \<le> id'" and "id' \<le> 2147483647"
    and "9 + int (length (utf8_encode p)) \<le> 2147483647"
  shows "and_then (createRconPacket type' id' p) parseRconPacket
           = Inr \<lparr>packet_length = 9 + int (length (utf8_encode p)), packet_id = id',
                   packet_type = type', payload = utf8_decode (butlast (utf8_encode p))\<rparr> \<and>
         (well_formed p \<and> p \<noteq> [] \<and> unat (last p) < 128 \<longrightarrow>
            utf8_decode (butlast (utf8_encode p)) = butlast p)"
proof
  show "and_then (createRconPacket type' id' p) parseRconPacket
           = Inr \<lparr>packet_length = 9 + int (length (utf8_encode p)), packet_id = id',
                   packet_type = type', payload = utf8_decode (butlast (utf8_encode p))\<rparr>"
    using assms by (rule rcon_roundtrip_bytes)
next
  show "well_formed p \<and> p \<noteq> [] \<and> unat (last p) < 128 \<longrightarrow>
      utf8_decode (butlast (utf8_encode p)) = butlast p"
  proof (intro impI, elim conjE)
    assume wf: "well_formed p" and "p \<noteq> []" and ascii: "unat (last p) < 128"
    then have p: "p = butlast p @ [last p]"
      by simp
    then have "utf8_encode p = utf8_encode (butlast p) @ [ucast (last p)]"
      using utf8_encode_snoc_ascii [OF ascii, of "butlast p"] by simp
    then have "butlast (utf8_encode p) = utf8_encode (butlast p)"
      by simp
    moreover have "well_formed (butlast p)"
      using well_formed_butlast [OF ascii, of "butlast p"] wf p by simp
    ultimately show "utf8_decode (butlast (utf8_encode p)) = butlast p"
      by (simp add: utf8_roundtrip)
  qed
qed

theorem rcon_roundtrip_payload_witness:
  "and_then (createRconPacket 2 0x456 (js_str ''list'')) parseRconPacket
     = Inr \<lparr>packet_length = 13, packet_id = 0x456, packet_type = 2, payload = js_str ''lis''\<rparr> \<and>
   and_then (createRconPacket 2 0x456 [0xE9, 0x21]) parseRconPacket
     = Inr \<lparr>packet_length = 12, packet_id = 0x456, packet_type = 2, payload = [0xE9]\<rparr>"
proof
  have wf: "well_formed (js_str ''list'') \<and> js_str ''list'' \<noteq> [] \<and> unat (last (js_str ''list'')) < 128"
    by (simp add: js_str_def high_surrogate_def low_surrogate_def)
  have len: "length (utf8_encode (js_str ''list'')) = 4"
    by (simp add: js_str_def unit_bytes_def high_surrogate_def)
  have "butlast (js_str ''list'') = js_str ''lis''"
    by (simp add: js_str_def)
  with rcon_roundtrip_payload [of 2 "0x456" "js_str ''list''"] wf len
  show "and_then (createRconPacket 2 0x456 (js_str ''list'')) parseRconPacket
     = Inr \<lparr>packet_length = 13, packet_id = 0x456, packet_type = 2, payload = js_str ''lis''\<rparr>"
    by simp
next
  have wf: "well_formed [0xE9, 0x21] \<and> [0xE9, 0x21 :: jschar] \<noteq> [] \<and> unat (last [0xE9, 0x21 :: jschar]) < 128"
    by (simp add: high_surrogate_def low_surrogate_def)
  have len: "length (utf8_encode [0xE9, 0x21]) = 3"
    by (simp add: unit_bytes_def high_surrogate_def)
  with rcon_roundtrip_payload [of 2 "0x456" "[0xE9, 0x21]"] wf
  show "and_then (createRconPacket 2 0x456 [0xE9, 0x21]) parseRconPacket
     = Inr \<lparr>packet_length = 12, packet_id = 0x456, packet_type = 2, payload = [0xE9]\<rparr>"
    by simp
qed

section \<open>Claims about the RCON session\<close>

text \<open>
  C1.  The claim: while the RCON session awaits authentication, a packet with id \<open>- 1\<close> makes
  it fail with the authentication error, for good, and no command packet is sent.  In the
  source the test for \<open>- 1\<close> stands inside the branch for id \<open>0x123\<close>, where it can never hold:
  the handler does nothing at all with such a packet.  No command is sent, but \<^verbatim>\<open>reject\<close> is
  not called either, and the session stays unauthenticated and, for a port that
  \<^verbatim>\<open>socket.connect\<close> accepts, pending.
\<close>

theorem rcon_auth_sentinel_ignored:
  "parseRconPacket [0x0A, 0, 0, 0, 0xFF, 0xFF, 0xFF, 0xFF, 0x02, 0, 0, 0, 0, 0]
     = Inr \<lparr>packet_length = 10, packet_id = - 1, packet_type = 2, payload = []\<rparr> \<and>
   rcon_on_data command [0x0A, 0, 0, 0, 0xFF, 0xFF, 0xFF, 0xFF, 0x02, 0, 0, 0, 0, 0] s = s \<and>
   settle_calls (rcon_run password command
                   [OnConnect, OnData [0x0A, 0, 0, 0, 0xFF, 0xFF, 0xFF, 0xFF, 0x02, 0, 0, 0, 0, 0]]
                   (rcon_start host port))
     = (if valid_port port then [] else [Rejected SocketBadPort]) \<and>
   settled (rcon_run password command
              [OnConnect, OnData [0x0A, 0, 0, 0, 0xFF, 0xFF, 0xFF, 0xFF, 0x02, 0, 0, 0, 0, 0]]
              (rcon_start host port))
     = (if valid_port port then None else Some (Rejected SocketBadPort))"
  by (simp add: sentinel_packet rcon_on_data_def rcon_start_def socket_do_def settle_def
      split: sum.splits)

text \<open>
  C2.  The claim: a chunk that does not yet hold a complete RCON packet leaves the RCON
  session waiting for more bytes.  The \<^verbatim>\<open>'data'\<close> handler of the RCON session keeps no receive
  buffer: it parses every chunk on its own, and its \<^verbatim>\<open>catch\<close> block destroys the socket and
  rejects with whatever the parser threw.  The server's reply to a right password, 14 bytes,
  authenticates the session when it arrives in one chunk; when its first 13 bytes arrive in a
  chunk of their own, the session is rejected with the parser's \<open>IncompleteRconPacket\<close>, and
  the last byte changes nothing.
\<close>

theorem rcon_split_packet_rejected:
  "authenticated (rcon_run (js_str ''pw'') (js_str ''list'')
                    [OnConnect, OnData [0x0A, 0, 0, 0, 0x23, 0x01, 0, 0, 0x02, 0, 0, 0, 0, 0]]
                    (rcon_start (js_str ''localhost'') 25575)) \<and>
   settled (rcon_run (js_str ''pw'') (js_str ''list'')
              [OnConnect, OnData [0x0A, 0, 0, 0, 0x23, 0x01, 0, 0, 0x02, 0, 0, 0, 0, 0]]
              (rcon_start (js_str ''localhost'') 25575)) = None \<and>
   parseRconPacket [0x0A, 0, 0, 0, 0x23, 0x01, 0, 0, 0x02, 0, 0, 0, 0] = Inl IncompleteRconPacket \<and>
   settle_calls (rcon_run (js_str ''pw'') (js_str ''list'')
                   [OnConnect, OnData [0x0A, 0, 0, 0, 0x23, 0x01, 0, 0, 0x02, 0, 0, 0, 0]]
                   (rcon_start (js_str ''localhost'') 25575))
     = [Rejected IncompleteRconPacket] \<and>
   last (socket_calls (rcon_run (js_str ''pw'') (js_str ''list'')
                         [OnConnect, OnData [0x0A, 0, 0, 0, 0x23, 0x01, 0, 0, 0x02, 0, 0, 0, 0]]
                         (rcon_start (js_str ''localhost'') 25575))) = Destroy \<and>
   settled (rcon_run (js_str ''pw'') (js_str ''list'')
              [OnConnect, OnData [0x0A, 0, 0, 0, 0x23, 0x01, 0, 0, 0x02, 0, 0, 0, 0], OnData [0]]
              (rcon_start (js_str ''localhost'') 25575))
     = Some (Rejected IncompleteRconPacket) \<and>
   \<not> authenticated (rcon_run (js_str ''pw'') (js_str ''list'')
                      [OnConnect, OnData [0x0A, 0, 0, 0, 0x23, 0x01, 0, 0, 0x02, 0, 0, 0, 0], OnData [0]]
                      (rcon_start (js_str ''localhost'') 25575))"
proof -
  obtain packet where command: "createRconPacket 0x02 0x456 (js_str ''list'') = Inr packet"
    using create_list_command by blast
  have short: "parseRconPacket [0] = Inl InvalidRconPacketTooShort"
    by (simp add: parseRconPacket_def)
  show ?thesis
    by (simp add: rcon_start_def example_ports rcon_on_data_def rcon_catch_def auth_ok_packet
        auth_ok_packet_split short command settle_def socket_do_def Let_def split: sum.splits)
qed

section \<open>Claims about both sessions\<close>

text \<open>
  C5.  The claim: whatever events a session receives, \<^verbatim>\<open>resolve\<close> or \<^verbatim>\<open>reject\<close> is called exactly
  once, never a second time.  The handlers do call them again: the \<^verbatim>\<open>'close'\<close> handler of the
  status session rejects after the \<^verbatim>\<open>'timeout'\<close> handler has, and the \<^verbatim>\<open>'end'\<close> handler of the
  RCON session rejects after an empty command response has been resolved.
\<close>

theorem session_repeated_settle_counterexample:
  "settle_calls (status_run (example_runtime None) (js_str ''localhost'') 25565
                   [OnTimeout, OnClose] (status_start (js_str ''localhost'') 25565))
     = [Rejected ConnectionTimeout, Rejected ConnectionClosedNoResponse] \<and>
   settle_calls (rcon_run (js_str ''pw'') (js_str ''list'')
                   [OnConnect,
                    OnData [0x0A, 0, 0, 0, 0x23, 0x01, 0, 0, 0x02, 0, 0, 0, 0, 0],
                    OnData [0x0A, 0, 0, 0, 0x56, 0x04, 0, 0, 0, 0, 0, 0, 0, 0],
                    OnEnd]
                   (rcon_start (js_str ''localhost'') 25575))
     = [Resolved [], Rejected RconClosedBeforeResponse]"
proof
  show "settle_calls (status_run (example_runtime None) (js_str ''localhost'') 25565
                   [OnTimeout, OnClose] (status_start (js_str ''localhost'') 25565))
     = [Rejected ConnectionTimeout, Rejected ConnectionClosedNoResponse]"
    by (simp add: status_start_def example_ports settle_def socket_do_def)
next
  obtain packet where "createRconPacket 0x02 0x456 (js_str ''list'') = Inr packet"
    using create_list_command by blast
  then show "settle_calls (rcon_run (js_str ''pw'') (js_str ''list'')
                   [OnConnect,
                    OnData [0x0A, 0, 0, 0, 0x23, 0x01, 0, 0, 0x02, 0, 0, 0, 0, 0],
                    OnData [0x0A, 0, 0, 0, 0x56, 0x04, 0, 0, 0, 0, 0, 0, 0, 0],
                    OnEnd]
                   (rcon_start (js_str ''localhost'') 25575))
     = [Resolved [], Rejected RconClosedBeforeResponse]"
    by (simp add: rcon_start_def example_ports rcon_on_data_def auth_ok_packet
        empty_response_packet settle_def socket_do_def Let_def split: sum.splits)
qed

text \<open>
  C5, amended.  Whatever events a status or RCON session receives, it has at most one
  outcome, the first one passed to \<^verbatim>\<open>resolve\<close> or \<^verbatim>\<open>reject\<close>, and no later event changes it; the
  later calls of \<^verbatim>\<open>resolve\<close> and \<^verbatim>\<open>reject\<close> that the handlers make are ignored by the promise.

  An outcome is reached as follows.  The status session has one exactly when the port is one
  that \<^verbatim>\<open>socket.connect\<close> refuses, or a \<^verbatim>\<open>'timeout'\<close>, \<^verbatim>\<open>'error'\<close>, \<^verbatim>\<open>'end'\<close> or \<^verbatim>\<open>'close'\<close> event has been
  delivered, or a \<^verbatim>\<open>'data'\<close> event at which the bytes received so far were more than an incomplete
  response.  The RCON session has one when the port is refused, or a \<^verbatim>\<open>'timeout'\<close>, \<^verbatim>\<open>'error'\<close> or
  \<^verbatim>\<open>'end'\<close> event has been delivered, or a chunk holding a packet with the id of the command
  while the session was authenticated; and it has none unless the port is refused or a
  \<^verbatim>\<open>'timeout'\<close>, \<^verbatim>\<open>'error'\<close>, \<^verbatim>\<open>'end'\<close> or \<^verbatim>\<open>'data'\<close> event has been delivered.
\<close>

theorem session_outcome_settled_once:
  "(let s = status_run rt host port evs (status_start host port)
    in settled s = first_outcome (settle_calls s) \<and>
       (\<forall>out. settled s = Some out \<longrightarrow>
          settled (status_run rt host port (evs @ evs') (status_start host port)) = Some out) \<and>
       (settled s \<noteq> None \<longleftrightarrow>
          \<not> valid_port port \<or> OnTimeout \<in> set evs \<or> (\<exists>err. OnError err \<in> set evs) \<or>
          OnEnd \<in> set evs \<or> OnClose \<in> set evs \<or>
          (\<exists>pre chunk post. evs = pre @ OnData chunk # post \<and>
             parseStatusResponse rt (received_bytes pre @ chunk) \<noteq> Inl IncompleteData))) \<and>
   (let r = rcon_run password command revs (rcon_start rhost rport)
    in settled r = first_outcome (settle_calls r) \<and>
       (\<forall>out. settled r = Some out \<longrightarrow>
          settled (rcon_run password command (revs @ revs') (rcon_start rhost rport)) = Some out) \<and>
       (\<not> valid_port rport \<or> OnTimeout \<in> set revs \<or> (\<exists>err. OnError err \<in> set revs) \<or>
        OnEnd \<in> set revs \<or>
        (\<exists>pre chunk post packetInfo. revs = pre @ OnData chunk # post \<and>
           authenticated (rcon_run password command pre (rcon_start rhost rport)) \<and>
           parseRconPacket chunk = Inr packetInfo \<and> packet_id packetInfo = 0x456)
        \<longrightarrow> settled r \<noteq> None) \<and>
       (settled r \<noteq> None \<longrightarrow>
          \<not> valid_port rport \<or> OnTimeout \<in> set revs \<or> (\<exists>err. OnError err \<in> set revs) \<or>
          OnEnd \<in> set revs \<or> (\<exists>chunk. OnData chunk \<in> set revs)))"
proof -
  let ?start = "status_start host port"
  let ?rstart = "rcon_start rhost rport"
  let ?s = "status_run rt host port evs ?start"
  let ?r = "rcon_run password command revs ?rstart"
  have s1: "settled ?s = first_outcome (settle_calls ?s)"
    by (rule status_run_first) (rule start_first)
  have s2: "\<forall>out. settled ?s = Some out \<longrightarrow>
      settled (status_run rt host port (evs @ evs') ?start) = Some out"
    by (simp add: status_run_append status_run_keeps)
  have s3: "settled ?s \<noteq> None \<longleftrightarrow>
      \<not> valid_port port \<or> OnTimeout \<in> set evs \<or> (\<exists>err. OnError err \<in> set evs) \<or>
      OnEnd \<in> set evs \<or> OnClose \<in> set evs \<or>
      (\<exists>pre chunk post. evs = pre @ OnData chunk # post \<and>
         parseStatusResponse rt (received_bytes pre @ chunk) \<noteq> Inl IncompleteData)"
  proof (cases "valid_port port")
    case True
    then have received: "data (status_run rt host port pre ?start) = received_bytes pre" for pre
      by (simp add: status_run_data start_registered start_data)
    have "(\<exists>pre x post. evs = pre @ x # post \<and>
             (\<exists>chunk. x = OnData chunk \<and>
                parseStatusResponse rt (data (status_run rt host port pre ?start) @ chunk)
                  \<noteq> Inl IncompleteData)) \<longleftrightarrow>
          (\<exists>pre chunk post. evs = pre @ OnData chunk # post \<and>
             parseStatusResponse rt (received_bytes pre @ chunk) \<noteq> Inl IncompleteData)"
      unfolding received by blast
    with True show ?thesis
      unfolding status_run_settles [OF start_invariant(1)] start_settled start_registered
      by blast
  next
    case False
    then show ?thesis
      unfolding status_run_settles [OF start_invariant(1)] start_settled by simp
  qed
  have r1: "settled ?r = first_outcome (settle_calls ?r)"
    by (rule rcon_run_first) (rule start_first)
  have r2: "\<forall>out. settled ?r = Some out \<longrightarrow>
      settled (rcon_run password command (revs @ revs') ?rstart) = Some out"
    by (simp add: rcon_run_append rcon_run_keeps)
  have r3: "\<not> valid_port rport \<or> OnTimeout \<in> set revs \<or> (\<exists>err. OnError err \<in> set revs) \<or>
        OnEnd \<in> set revs \<or>
        (\<exists>pre chunk post packetInfo. revs = pre @ OnData chunk # post \<and>
           authenticated (rcon_run password command pre ?rstart) \<and>
           parseRconPacket chunk = Inr packetInfo \<and> packet_id packetInfo = 0x456)
        \<longrightarrow> settled ?r \<noteq> None"
  proof
    assume reached: "\<not> valid_port rport \<or> OnTimeout \<in> set revs \<or> (\<exists>err. OnError err \<in> set revs) \<or>
        OnEnd \<in> set revs \<or>
        (\<exists>pre chunk post packetInfo. revs = pre @ OnData chunk # post \<and>
           authenticated (rcon_run password command pre ?rstart) \<and>
           parseRconPacket chunk = Inr packetInfo \<and> packet_id packetInfo = 0x456)"
    show "settled ?r \<noteq> None"
    proof (rule rcon_run_settles [OF start_invariant(2)])
      show "settled ?rstart \<noteq> None \<or> OnTimeout \<in> set revs \<or> (\<exists>err. OnError err \<in> set revs) \<or>
         handlers_registered ?rstart \<and>
           (OnEnd \<in> set revs \<or>
            (\<exists>pre x post. revs = pre @ x # post \<and>
               (\<exists>chunk packetInfo. x = OnData chunk \<and>
                  authenticated (rcon_run password command pre ?rstart) \<and>
                  parseRconPacket chunk = Inr packetInfo \<and> packet_id packetInfo = 0x456)))"
        using reached unfolding start_settled start_registered by blast
    qed
  qed
  have r4: "settled ?r \<noteq> None \<longrightarrow>
          \<not> valid_port rport \<or> OnTimeout \<in> set revs \<or> (\<exists>err. OnError err \<in> set revs) \<or>
          OnEnd \<in> set revs \<or> (\<exists>chunk. OnData chunk \<in> set revs)"
  proof (rule ccontr)
    assume "\<not> ?thesis"
    then have reached: "settled ?r \<noteq> None" and valid: "valid_port rport"
      and none: "OnTimeout \<notin> set revs" "\<forall>err. OnError err \<notin> set revs" "OnEnd \<notin> set revs"
        "\<forall>chunk. OnData chunk \<notin> set revs"
      by auto
    have "\<forall>ev\<in>set revs. ev = OnConnect \<or> ev = OnClose"
    proof
      fix ev assume "ev \<in> set revs"
      with none show "ev = OnConnect \<or> ev = OnClose"
        by (cases ev) auto
    qed
    then have "settled ?r = settled ?rstart"
      by (rule rcon_run_quiet)
    with valid start_settled(2) [of rhost rport] reached show False
      by simp
  qed
  from s1 s2 s3 r1 r2 r3 r4 show ?thesis
    unfolding Let_def by (intro conjI)
qed

theorem session_outcome_settled_once_witness:
  "settled (status_run (example_runtime None) (js_str ''localhost'') 25565
              [OnConnect, OnEnd] (status_start (js_str ''localhost'') 25565)) \<noteq> None \<and>
   settled (status_run (example_runtime None) (js_str ''localhost'') 25565
              ([OnConnect, OnEnd] @ [OnTimeout]) (status_start (js_str ''localhost'') 25565))
     = Some (Rejected ConnectionClosedNoResponse) \<and>
   settled (rcon_run (js_str ''pw'') (js_str ''list'')
              [OnConnect, OnData [0x0A, 0, 0, 0, 0x23, 0x01, 0, 0, 0x02, 0, 0, 0, 0, 0], OnEnd]
              (rcon_start (js_str ''localhost'') 25575)) \<noteq> None \<and>
   settled (rcon_run (js_str ''pw'') (js_str ''list'')
              ([OnConnect, OnData [0x0A, 0, 0, 0, 0x23, 0x01, 0, 0, 0x02, 0, 0, 0, 0, 0], OnEnd]
                 @ [OnTimeout])
              (rcon_start (js_str ''localhost'') 25575))
     = Some (Rejected RconClosedBeforeResponse) \<and>
   settled (rcon_run (js_str ''pw'') (js_str ''list'') [OnConnect, OnClose]
              (rcon_start (js_str ''localhost'') 25575)) = None"
proof -
  let ?reply = "[0x0A, 0, 0, 0, 0x23, 0x01, 0, 0, 0x02, 0, 0, 0, 0, 0] :: buffer"
  let ?start = "status_start (js_str ''localhost'') 25565"
  let ?rstart = "rcon_start (js_str ''localhost'') 25575"
  note status = session_outcome_settled_once
      [where rt = "example_runtime None" and host = "js_str ''localhost''" and port = 25565
         and evs = "[OnConnect, OnEnd]" and evs' = "[OnTimeout]"
         and password = "js_str ''pw''" and command = "js_str ''list''"
         and revs = "[OnConnect, OnData ?reply, OnEnd]" and revs' = "[OnTimeout]"
         and rhost = "js_str ''localhost''" and rport = 25575, unfolded Let_def]
  note quiet = session_outcome_settled_once
      [where rt = "example_runtime None" and host = "js_str ''localhost''" and port = 25565
         and evs = "[]" and evs' = "[]"
         and password = "js_str ''pw''" and command = "js_str ''list''"
         and revs = "[OnConnect, OnClose]" and revs' = "[]"
         and rhost = "js_str ''localhost''" and rport = 25575, unfolded Let_def]
  obtain packet where command: "createRconPacket 0x02 0x456 (js_str ''list'') = Inr packet"
    using create_list_command by blast
  have reached: "settled (status_run (example_runtime None) (js_str ''localhost'') 25565
      [OnConnect, OnEnd] ?start) \<noteq> None"
    using status [THEN conjunct1, THEN conjunct2, THEN conjunct2] by (simp del: status_run.simps)
  have rreached: "settled (rcon_run (js_str ''pw'') (js_str ''list'')
      [OnConnect, OnData ?reply, OnEnd] ?rstart) \<noteq> None"
    using status [THEN conjunct2, THEN conjunct2, THEN conjunct2, THEN conjunct1]
    by (simp del: rcon_run.simps)
  have first: "settled (status_run (example_runtime None) (js_str ''localhost'') 25565
      [OnConnect, OnEnd] ?start) = Some (Rejected ConnectionClosedNoResponse)"
    by (simp add: status_start_def example_ports settle_def socket_do_def)
  have rfirst: "settled (rcon_run (js_str ''pw'') (js_str ''list'')
      [OnConnect, OnData ?reply, OnEnd] ?rstart) = Some (Rejected RconClosedBeforeResponse)"
    using command
    by (simp add: rcon_start_def example_ports rcon_on_data_def auth_ok_packet
        settle_def socket_do_def Let_def split: sum.splits)
  have pending: "settled (rcon_run (js_str ''pw'') (js_str ''list'') [OnConnect, OnClose] ?rstart) = None"
    using quiet [THEN conjunct2, THEN conjunct2, THEN conjunct2, THEN conjunct2]
    by (simp add: example_ports del: rcon_run.simps)
  from reached rreached first rfirst pending status show ?thesis
    by blast
qed

section \<open>Claims about the status session\<close>

text \<open>
  C6.  When the parsed status has \<^verbatim>\<open>players.online > 0\<close> and every player of the sample is an
  object with a string as its \<^verbatim>\<open>name\<close>, the status session resolves with a result whose
  \<^verbatim>\<open>players.nicknames\<close> is the comma-joined list of these names, in the order of the sample:
  \<^verbatim>\<open>"Alice, Bob"\<close> for a player named Alice and a player named Bob.  When \<^verbatim>\<open>players.online\<close> is 0
  (and the server sent no \<^verbatim>\<open>nicknames\<close> of its own), the result has no \<^verbatim>\<open>players.nicknames\<close>.
\<close>

theorem status_nicknames:
  assumes "parseStatusResponse rt (data s @ chunk) = Inr (JObj kvs)"
    and "map_of kvs (js_str ''players'') = Some (JObj pkvs)"
  shows "((\<exists>n. map_of pkvs (js_str ''online'') = Some (JNum n) \<and> 0 < n) \<and>
          map_of pkvs (js_str ''sample'') = Some (JArr sample aprops) \<and>
          list_all2 (\<lambda>player name. \<exists>props. player = JObj props \<and>
             map_of props (js_str ''name'') = Some (JStr name)) sample names \<longrightarrow>
          (\<exists>result. settle_calls (status_on_data rt chunk s) = settle_calls s @ [Resolved result] \<and>
             (settled s = None \<longrightarrow> settled (status_on_data rt chunk s) = Some (Resolved result)) \<and>
             players_nicknames result = Inr (JStr (comma_joined names)))) \<and>
         (map_of pkvs (js_str ''online'') = Some (JNum 0) \<and>
          map_of pkvs (js_str ''nicknames'') = None \<longrightarrow>
          (\<exists>result. settle_calls (status_on_data rt chunk s) = settle_calls s @ [Resolved result] \<and>
             (settled s = None \<longrightarrow> settled (status_on_data rt chunk s) = Some (Resolved result)) \<and>
             players_nicknames result = Inr JUndefined))"
proof (intro conjI impI; (elim conjE exE)?)
  fix n
  assume online: "map_of pkvs (js_str ''online'') = Some (JNum n)" and "0 < n"
    and sample: "map_of pkvs (js_str ''sample'') = Some (JArr sample aprops)"
    and named: "list_all2 (\<lambda>player name. \<exists>props. player = JObj props \<and>
             map_of props (js_str ''name'') = Some (JStr name)) sample names"
  let ?result = "JObj (AList.update (js_str ''players'')
      (JObj (AList.update (js_str ''nicknames'') (JStr (comma_joined names)) pkvs))
      (AList.update (js_str ''online'') (JBool True) kvs))"
  have "augment_status rt (JObj kvs) = Inr ?result"
    using \<open>0 < n\<close> sample
    by (simp add: augment_status_players [OF assms(2) online] own_property_def
        map_names_named [OF named] js_join_names)
  then have "status_on_data rt chunk s
      = settle (Resolved ?result)
          (socket_do End (s\<lparr>data := data s @ chunk, hasReceivedResponse := True\<rparr>))"
    by (rule status_on_data_resolved [OF assms(1)])
  moreover have "players_nicknames ?result = Inr (JStr (comma_joined names))"
    by (simp add: players_nicknames_def own_property_update key_distinct)
  ultimately show "\<exists>result. settle_calls (status_on_data rt chunk s) = settle_calls s @ [Resolved result] \<and>
      (settled s = None \<longrightarrow> settled (status_on_data rt chunk s) = Some (Resolved result)) \<and>
      players_nicknames result = Inr (JStr (comma_joined names))"
    by (intro exI [of _ ?result]) (simp add: promise_simps)
next
  assume online: "map_of pkvs (js_str ''online'') = Some (JNum 0)"
    and absent: "map_of pkvs (js_str ''nicknames'') = None"
  let ?result = "JObj (AList.update (js_str ''online'') (JBool True) kvs)"
  have "augment_status rt (JObj kvs) = Inr ?result"
    by (simp add: augment_status_players [OF assms(2) online])
  then have "status_on_data rt chunk s
      = settle (Resolved ?result)
          (socket_do End (s\<lparr>data := data s @ chunk, hasReceivedResponse := True\<rparr>))"
    by (rule status_on_data_resolved [OF assms(1)])
  moreover have "players_nicknames ?result = Inr JUndefined"
    using assms(2) absent
    by (simp add: players_nicknames_def own_property_update key_distinct) (simp add: own_property_def)
  ultimately show "\<exists>result. settle_calls (status_on_data rt chunk s) = settle_calls s @ [Resolved result] \<and>
      (settled s = None \<longrightarrow> settled (status_on_data rt chunk s) = Some (Resolved result)) \<and>
      players_nicknames result = Inr JUndefined"
    by (intro exI [of _ ?result]) (simp add: promise_simps)
qed

theorem status_nicknames_witness:
  "(\<exists>result.
      settle_calls
        (status_on_data
           (example_runtime (Some (JObj [(js_str ''players'',
              JObj [(js_str ''max'', JNum 20), (js_str ''online'', JNum 2),
                    (js_str ''sample'',
                     JArr [JObj [(js_str ''name'', JStr (js_str ''Alice''))],
                           JObj [(js_str ''name'', JStr (js_str ''Bob''))]] [])])])))
           [0x03, 0x00, 0x01, 0x7B] (status_start (js_str ''localhost'') 25565))
        = [Resolved result] \<and>
      players_nicknames result = Inr (JStr (js_str ''Alice, Bob''))) \<and>
   (\<exists>result.
      settle_calls
        (status_on_data
           (example_runtime (Some (JObj [(js_str ''players'',
              JObj [(js_str ''max'', JNum 20), (js_str ''online'', JNum 0)])])))
           [0x03, 0x00, 0x01, 0x7B] (status_start (js_str ''localhost'') 25565))
        = [Resolved result] \<and>
      players_nicknames result = Inr JUndefined)"
proof
  let ?s = "status_start (js_str ''localhost'') 25565"
  let ?sample = "[JObj [(js_str ''name'', JStr (js_str ''Alice''))],
                  JObj [(js_str ''name'', JStr (js_str ''Bob''))]]"
  let ?players = "[(js_str ''max'', JNum 20), (js_str ''online'', JNum 2),
      (js_str ''sample'', JArr ?sample [])]"
  let ?rt = "example_runtime (Some (JObj [(js_str ''players'', JObj ?players)]))"
  have parsed: "parseStatusResponse ?rt (data ?s @ [0x03, 0x00, 0x01, 0x7B])
      = Inr (JObj [(js_str ''players'', JObj ?players)])"
    by (simp add: start_data example_response)
  have players: "map_of [(js_str ''players'', JObj ?players)] (js_str ''players'') = Some (JObj ?players)"
    by simp
  have online: "\<exists>n. map_of ?players (js_str ''online'') = Some (JNum n) \<and> 0 < n"
    by (simp add: js_str_def)
  have sample: "map_of ?players (js_str ''sample'') = Some (JArr ?sample [])"
    by (simp add: js_str_def)
  have named: "list_all2 (\<lambda>player name. \<exists>props. player = JObj props \<and>
      map_of props (js_str ''name'') = Some (JStr name)) ?sample [js_str ''Alice'', js_str ''Bob'']"
    by simp
  have joined: "comma_joined [js_str ''Alice'', js_str ''Bob''] = js_str ''Alice, Bob''"
    by (simp add: comma_joined_def js_str_def)
  from status_nicknames [OF parsed players, THEN conjunct1, rule_format, OF conjI [OF online conjI [OF sample named]]]
  obtain result where "settle_calls (status_on_data ?rt [0x03, 0x00, 0x01, 0x7B] ?s) = settle_calls ?s @ [Resolved result]"
    and "players_nicknames result = Inr (JStr (js_str ''Alice, Bob''))"
    unfolding joined by blast
  moreover have "settle_calls ?s = []"
    by (simp add: status_start_def example_ports)
  ultimately show "\<exists>result.
      settle_calls (status_on_data ?rt [0x03, 0x00, 0x01, 0x7B] ?s) = [Resolved result] \<and>
      players_nicknames result = Inr (JStr (js_str ''Alice, Bob''))"
    by auto
next
  let ?s = "status_start (js_str ''localhost'') 25565"
  let ?players = "[(js_str ''max'', JNum 20), (js_str ''online'', JNum 0)]"
  let ?rt = "example_runtime (Some (JObj [(js_str ''players'', JObj ?players)]))"
  have parsed: "parseStatusResponse ?rt (data ?s @ [0x03, 0x00, 0x01, 0x7B])
      = Inr (JObj [(js_str ''players'', JObj ?players)])"
    by (simp add: start_data example_response)
  have players: "map_of [(js_str ''players'', JObj ?players)] (js_str ''players'') = Some (JObj ?players)"
    by simp
  have online: "map_of ?players (js_str ''online'') = Some (JNum 0)"
    and absent: "map_of ?players (js_str ''nicknames'') = None"
    by (simp_all add: js_str_def)
  from status_nicknames [OF parsed players, THEN conjunct2, rule_format, OF conjI [OF online absent]]
  obtain result where "settle_calls (status_on_data ?rt [0x03, 0x00, 0x01, 0x7B] ?s) = settle_calls ?s @ [Resolved result]"
    and "players_nicknames result = Inr JUndefined"
    by blast
  moreover have "settle_calls ?s = []"
    by (simp add: status_start_def example_ports)
  ultimately show "\<exists>result.
      settle_calls (status_on_data ?rt [0x03, 0x00, 0x01, 0x7B] ?s) = [Resolved result] \<and>
      players_nicknames result = Inr JUndefined"
    by auto
qed

text \<open>
  C7.  When the accumulated buffer holds a complete outer packet whose packet id decodes to
  a value other than 0, \<open>parseStatusResponse\<close> fails with the unexpected-packet-id error, and
  the session rejects with it instead of resolving.
\<close>

theorem unexpected_packet_id:
  assumes "readVarInt (data s @ chunk) 0 = Inr (packetLength, size1)"
    and "int size1 + packetLength \<le> int (length (data s @ chunk))"
    and "readVarInt (data s @ chunk) size1 = Inr (packetId, size2)"
    and "packetId \<noteq> 0"
  shows "parseStatusResponse rt (data s @ chunk) = Inl (UnexpectedPacketId packetId) \<and>
         settle_calls (status_on_data rt chunk s) = settle_calls s @ [Rejected (UnexpectedPacketId packetId)] \<and>
         (settled s = None \<longrightarrow>
            settled (status_on_data rt chunk s) = Some (Rejected (UnexpectedPacketId packetId)))"
proof -
  have parse: "parseStatusResponse rt (data s @ chunk) = Inl (UnexpectedPacketId packetId)"
    using assms by (simp add: parseStatusResponse_def Let_def)
  then have "status_on_data rt chunk s
      = settle (Rejected (UnexpectedPacketId packetId)) (socket_do End (s\<lparr>data := data s @ chunk\<rparr>))"
    by (rule status_on_data_parse_error) simp
  with parse show ?thesis
    by (simp add: promise_simps)
qed

theorem unexpected_packet_id_witness:
  "parseStatusResponse (example_runtime None) [0x01, 0x05] = Inl (UnexpectedPacketId 5) \<and>
   settle_calls (status_on_data (example_runtime None) [0x01, 0x05]
                   (status_start (js_str ''localhost'') 25565))
     = [Rejected (UnexpectedPacketId 5)]"
proof -
  have "readVarInt [0x01, 0x05] 0 = Inr (1, 1)" "readVarInt [0x01, 0x05] 1 = Inr (5, 1)"
    by (simp_all add: js_eval)
  then show ?thesis
    using unexpected_packet_id
      [of "status_start (js_str ''localhost'') 25565" "[0x01, 0x05]" 1 1 5 1 "example_runtime None"]
    by (simp add: start_data) (simp add: status_start_def example_ports)
qed

text \<open>
  C10.  When the parsed status has \<^verbatim>\<open>players.online > 0\<close> and no \<^verbatim>\<open>players.sample\<close>, the status
  session rejects with the \<^verbatim>\<open>TypeError\<close> of \<^verbatim>\<open>sample.map\<close> instead of resolving.
\<close>

theorem status_missing_sample_rejects:
  assumes "parseStatusResponse rt (data s @ chunk) = Inr (JObj kvs)"
    and "map_of kvs (js_str ''players'') = Some (JObj pkvs)"
    and "map_of pkvs (js_str ''online'') = Some (JNum n)" and "0 < n"
    and "map_of pkvs (js_str ''sample'') = None"
  shows "settle_calls (status_on_data rt chunk s) = settle_calls s @ [Rejected TypeError] \<and>
         (settled s = None \<longrightarrow> settled (status_on_data rt chunk s) = Some (Rejected TypeError))"
proof -
  have "augment_status rt (JObj kvs) = Inl TypeError"
    using assms(4,5) by (simp add: augment_status_players [OF assms(2,3)] own_property_def)
  then have "status_on_data rt chunk s
      = settle (Rejected TypeError)
          (socket_do End (socket_do End (s\<lparr>data := data s @ chunk, hasReceivedResponse := True\<rparr>)))"
    by (rule status_on_data_thrown [OF assms(1)]) simp
  then show ?thesis
    by (simp add: promise_simps)
qed

theorem status_missing_sample_rejects_witness:
  "settle_calls
     (status_on_data
        (example_runtime (Some (JObj [(js_str ''players'',
           JObj [(js_str ''max'', JNum 20), (js_str ''online'', JNum 2)])])))
        [0x03, 0x00, 0x01, 0x7B] (status_start (js_str ''localhost'') 25565))
     = [Rejected TypeError]"
proof -
  have "map_of [(js_str ''max'', JNum 20), (js_str ''online'', JNum 2)] (js_str ''online'') = Some (JNum 2)"
    "map_of [(js_str ''max'', JNum 20), (js_str ''online'', JNum 2)] (js_str ''sample'') = None"
    by (simp_all add: js_str_def)
  then show ?thesis
    using status_missing_sample_rejects
      [of "example_runtime (Some (JObj [(js_str ''players'',
             JObj [(js_str ''max'', JNum 20), (js_str ''online'', JNum 2)])]))"
          "status_start (js_str ''localhost'') 25565" "[0x03, 0x00, 0x01, 0x7B]"
          "[(js_str ''players'', JObj [(js_str ''max'', JNum 20), (js_str ''online'', JNum 2)])]"
          "[(js_str ''max'', JNum 20), (js_str ''online'', JNum 2)]" 2]
    by (simp add: start_data example_response) (simp add: status_start_def example_ports)
qed

end
